theory Spec2Isabelle
  imports Complex_Main "HOL-Library.Multiset"
begin

section \<open>Data model\<close>

text \<open>
  The program (\<^verbatim>\<open>main.py\<close>) keeps its visits in a data frame \<^verbatim>\<open>df_visits\<close>, one row per
  visit, built from dictionaries with the keys \<^verbatim>\<open>start\<close>, \<^verbatim>\<open>end\<close>, \<^verbatim>\<open>duration_min\<close>,
  \<^verbatim>\<open>placeID\<close>, \<^verbatim>\<open>lat\<close> and \<^verbatim>\<open>lng\<close>. A data frame is modelled as the list of its rows, a
  row as a record.

  Timestamps are integers counting seconds, so that \<^verbatim>\<open>(end - start).total_seconds()\<close> is
  the integer difference. Durations in minutes, coordinates and distances are Python
  floats; they are modelled as real numbers, so floating-point rounding is not part
  of the model. The field \<^verbatim>\<open>end\<close> is called \<open>end_time\<close>, since \<^verbatim>\<open>end\<close> is reserved.
\<close>

record visit =
  start :: int
  end_time :: int
  duration_min :: real
  placeID :: string
  lat :: real
  lng :: real

text \<open>
  The dictionary appended to \<^verbatim>\<open>visits\<close> for one entry of the location history (lines
  21 to 29): the duration is the difference of the two timestamps in minutes.
\<close>

definition parse_visit :: "int \<Rightarrow> int \<Rightarrow> string \<Rightarrow> real \<Rightarrow> real \<Rightarrow> visit" where
  "parse_visit startTime endTime pid la lo =
     \<lparr>start = startTime, end_time = endTime,
      duration_min = real_of_int (endTime - startTime) / 60,
      placeID = pid, lat = la, lng = lo\<rparr>"

text \<open>
  A row of \<^verbatim>\<open>place_summary\<close>, with the columns
  \<^verbatim>\<open>['placeID', 'lat', 'lng', 'num_visits', 'total_duration_min']\<close> of line 87.
\<close>

record place_row =
  ps_placeID :: string
  ps_lat :: real
  ps_lng :: real
  ps_num_visits :: nat
  ps_total_duration_min :: real

text \<open>
  The series returned by \<^verbatim>\<open>collapse_visits\<close>. The mean of an empty column is NaN in
  pandas; it is \<open>None\<close> here.
\<close>

record merged_row =
  ms_lat :: "real option"
  ms_lng :: "real option"
  ms_num_visits :: nat
  ms_total_duration_min :: real

section \<open>The interval collapser\<close>

text \<open>
  The loop of \<^verbatim>\<open>collapse_visits\<close> (lines 106 to 113). Its state is the running window
  (\<^verbatim>\<open>current_start\<close> and \<^verbatim>\<open>current_end\<close>, which are \<^verbatim>\<open>None\<close> together) and the list
  \<^verbatim>\<open>merged\<close> of the windows closed so far. The argument \<^verbatim>\<open>group\<close> is called
  \<open>group_visits\<close> below.
\<close>

fun sweep :: "visit list \<Rightarrow> (int \<times> int) option \<Rightarrow> (int \<times> int) list
    \<Rightarrow> (int \<times> int) option \<times> (int \<times> int) list" where
  "sweep [] cur merged = (cur, merged)"
| "sweep (v # vs) None merged = sweep vs (Some (start v, end_time v)) merged"
| "sweep (v # vs) (Some (current_start, current_end)) merged =
     (if start v \<le> current_end
      then sweep vs (Some (current_start, max current_end (end_time v))) merged
      else sweep vs (Some (start v, end_time v)) (merged @ [(current_start, current_end)]))"

text \<open>Lines 115 to 117: the window still open after the loop is appended.\<close>

definition add_final :: "(int \<times> int) option \<times> (int \<times> int) list \<Rightarrow> (int \<times> int) list" where
  "add_final st = (case fst st of None \<Rightarrow> snd st | Some w \<Rightarrow> snd st @ [w])"

text \<open>
  The list \<^verbatim>\<open>merged\<close> at line 119. \<^verbatim>\<open>sort_values('start')\<close> is modelled by the stable
  insertion sort \<open>sort_key\<close>: rows with equal \<^verbatim>\<open>start\<close> keep their order. The sort of
  pandas need not keep it; for visits that end no earlier than they start the windows
  are the same for every order of such rows (lemma \<open>collapse_windows_tie_order\<close>).
  For a group with a visit that ends before it starts they are not, so a statement
  about such groups is made for \<open>sweep_windows\<close> on every frame that is sorted by
  \<^verbatim>\<open>start\<close> and has the rows of the group.
\<close>

definition collapse_windows :: "visit list \<Rightarrow> (int \<times> int) list" where
  "collapse_windows group_visits = add_final (sweep (sort_key start group_visits) None [])"

text \<open>
  Lines 103 to 117 on a frame \<open>ys\<close> that \<^verbatim>\<open>sort_values\<close> has returned: the frames it may
  return for a group are those with \<open>mset ys = mset group_visits\<close> and
  \<open>sorted (map start ys)\<close>.
\<close>

definition sweep_windows :: "visit list \<Rightarrow> (int \<times> int) list" where
  "sweep_windows ys = add_final (sweep ys None [])"

definition minutes :: "int \<times> int \<Rightarrow> real" where
  "minutes w = real_of_int (snd w - fst w) / 60"

definition mean :: "real list \<Rightarrow> real option" where
  "mean xs = (if xs = [] then None else Some (sum_list xs / real (length xs)))"

definition collapse_visits :: "visit list \<Rightarrow> merged_row" where
  "collapse_visits group_visits =
     (let merged = collapse_windows group_visits;
          total_minutes = sum_list (map minutes merged)
      in \<lparr>ms_lat = mean (map lat group_visits),
          ms_lng = mean (map lng group_visits),
          ms_num_visits = length merged,
          ms_total_duration_min = total_minutes\<rparr>)"

section \<open>The spatial merger\<close>

text \<open>
  The innermost loop of \<^verbatim>\<open>smart_merge\<close> (lines 65 to 72), for one visit \<open>v1\<close> of the
  first place against the visits of the second. The state is \<^verbatim>\<open>merged_group\<close>,
  \<^verbatim>\<open>used\<close> and the flag \<^verbatim>\<open>overlap\<close>; \<^verbatim>\<open>break\<close> ends the recursion.
\<close>

type_synonym scan_state = "string list \<times> string set \<times> bool"

fun scan_v2 :: "string \<Rightarrow> visit \<Rightarrow> visit list \<Rightarrow> scan_state \<Rightarrow> scan_state" where
  "scan_v2 pid2 v1 [] st = st"
| "scan_v2 pid2 v1 (v2 # vs2) (merged_group, used, overlap) =
     (let latest_start = max (start v1) (start v2);
          earliest_end = min (end_time v1) (end_time v2)
      in if latest_start < earliest_end
         then (merged_group @ [pid2], insert pid2 used, True)
         else scan_v2 pid2 v1 vs2 (merged_group, used, overlap))"

text \<open>The loop over the visits of the first place (lines 64 to 74).\<close>

fun scan_v1 :: "string \<Rightarrow> visit list \<Rightarrow> visit list \<Rightarrow> scan_state \<Rightarrow> scan_state" where
  "scan_v1 pid2 [] visits2 st = st"
| "scan_v1 pid2 (v1 # vs1) visits2 st =
     (case scan_v2 pid2 v1 visits2 st of
        (merged_group, used, overlap) \<Rightarrow>
          if overlap then (merged_group, used, overlap)
          else scan_v1 pid2 vs1 visits2 (merged_group, used, overlap))"

text \<open>
  The body of the loop over \<open>place2\<close> (lines 45 to 74). \<^verbatim>\<open>geodesic(...).meters\<close> is a
  function of the geopy library; it is the parameter \<open>geodesic\<close>, from two pairs of
  coordinates to a distance in meters.
\<close>

type_synonym metric = "real \<times> real \<Rightarrow> real \<times> real \<Rightarrow> real"

definition visits_of :: "visit list \<Rightarrow> string \<Rightarrow> visit list" where
  "visits_of df_visits pid = filter (\<lambda>v. placeID v = pid) df_visits"

definition try_merge :: "metric \<Rightarrow> visit list \<Rightarrow> real \<Rightarrow> int \<Rightarrow> place_row
    \<Rightarrow> place_row \<Rightarrow> string list \<times> string set \<Rightarrow> string list \<times> string set" where
  "try_merge geodesic df_visits distance_threshold_m min_visits place1 place2 st =
     (case st of (merged_group, used) \<Rightarrow>
      if ps_placeID place1 = ps_placeID place2 \<or> ps_placeID place2 \<in> used then st
      else
        let dist = geodesic (ps_lat place1, ps_lng place1) (ps_lat place2, ps_lng place2)
        in if dist \<le> distance_threshold_m
           then
             let visits1 = visits_of df_visits (ps_placeID place1);
                 visits2 = visits_of df_visits (ps_placeID place2)
             in if int (length visits2) < min_visits
                then (merged_group @ [ps_placeID place2], insert (ps_placeID place2) used)
                else
                  let total1 = sum_list (map duration_min visits1);
                      total2 = sum_list (map duration_min visits2)
                  in if total1 > 700 \<and> total2 > 700
                     then (merged_group @ [ps_placeID place2],
                           insert (ps_placeID place2) used)
                     else
                       (case scan_v1 (ps_placeID place2) visits1 visits2
                               (merged_group, used, False) of
                          (merged_group', used', overlap) \<Rightarrow> (merged_group', used'))
           else st)"

text \<open>
  In \<open>try_merge\<close> the totals of lines 56 and 57 are exact sums. \<^verbatim>\<open>.sum()\<close> of pandas adds
  floats, and its result can lie on the other side of 700 than the exact sum when the
  exact sum is 700 or just below. \<open>try_merge_by\<close> is the same loop body with the sum of
  a column as the parameter \<open>column_sum\<close>, as the distance is a parameter; statements
  that depend on a total not exceeding 700 are made for it, for every \<open>column_sum\<close>.
\<close>

definition try_merge_by :: "(real list \<Rightarrow> real) \<Rightarrow> metric \<Rightarrow> visit list \<Rightarrow> real \<Rightarrow> int \<Rightarrow> place_row
    \<Rightarrow> place_row \<Rightarrow> string list \<times> string set \<Rightarrow> string list \<times> string set" where
  "try_merge_by column_sum geodesic df_visits distance_threshold_m min_visits place1 place2 st =
     (case st of (merged_group, used) \<Rightarrow>
      if ps_placeID place1 = ps_placeID place2 \<or> ps_placeID place2 \<in> used then st
      else
        let dist = geodesic (ps_lat place1, ps_lng place1) (ps_lat place2, ps_lng place2)
        in if dist \<le> distance_threshold_m
           then
             let visits1 = visits_of df_visits (ps_placeID place1);
                 visits2 = visits_of df_visits (ps_placeID place2)
             in if int (length visits2) < min_visits
                then (merged_group @ [ps_placeID place2], insert (ps_placeID place2) used)
                else
                  let total1 = column_sum (map duration_min visits1);
                      total2 = column_sum (map duration_min visits2)
                  in if total1 > 700 \<and> total2 > 700
                     then (merged_group @ [ps_placeID place2],
                           insert (ps_placeID place2) used)
                     else
                       (case scan_v1 (ps_placeID place2) visits1 visits2
                               (merged_group, used, False) of
                          (merged_group', used', overlap) \<Rightarrow> (merged_group', used'))
           else st)"

text \<open>
  The loop over \<open>place1\<close> (lines 40 to 75): \<open>rows\<close> is what is left of the iteration,
  \<open>place_summary\<close> the whole table, which the inner loop runs through again.
\<close>

fun merge_loop :: "metric \<Rightarrow> visit list \<Rightarrow> real \<Rightarrow> int \<Rightarrow> place_row list
    \<Rightarrow> place_row list \<Rightarrow> string list list \<times> string set \<Rightarrow> string list list \<times> string set" where
  "merge_loop geodesic df_visits distance_threshold_m min_visits place_summary [] st = st"
| "merge_loop geodesic df_visits distance_threshold_m min_visits place_summary
     (place1 # rows) (merged_clusters, used) =
     (if ps_placeID place1 \<in> used
      then merge_loop geodesic df_visits distance_threshold_m min_visits place_summary
             rows (merged_clusters, used)
      else
        case fold (try_merge geodesic df_visits distance_threshold_m min_visits place1)
               place_summary ([ps_placeID place1], used) of
          (merged_group, used') \<Rightarrow>
            merge_loop geodesic df_visits distance_threshold_m min_visits place_summary
              rows (merged_clusters @ [merged_group], used'))"

definition smart_merge :: "metric \<Rightarrow> visit list \<Rightarrow> place_row list \<Rightarrow> real \<Rightarrow> int
    \<Rightarrow> string list list" where
  "smart_merge geodesic df_visits place_summary distance_threshold_m min_visits =
     fst (merge_loop geodesic df_visits distance_threshold_m min_visits place_summary
            place_summary ([], {}))"

section \<open>The table of places\<close>

text \<open>
  Lines 80 to 87: the row of \<^verbatim>\<open>place_summary\<close> for a place of the frame, with the means
  of the coordinates, the number of visits and the sum of their durations. \<^verbatim>\<open>groupby\<close>
  makes one row for each place that has a visit and lists the rows by \<^verbatim>\<open>placeID\<close>
  in ascending order.
\<close>

definition summary_row :: "visit list \<Rightarrow> string \<Rightarrow> place_row" where
  "summary_row df_visits pid =
     (let vs = visits_of df_visits pid
      in \<lparr>ps_placeID = pid,
          ps_lat = sum_list (map lat vs) / real (length vs),
          ps_lng = sum_list (map lng vs) / real (length vs),
          ps_num_visits = length vs,
          ps_total_duration_min = sum_list (map duration_min vs)\<rparr>)"

section \<open>The summary of the merged places\<close>

text \<open>
  Lines 92 to 95: every place of a group is mapped to the label of the group,
  \<^verbatim>\<open>f"merged_{i}"\<close>; the label is modelled by the index \<open>i\<close>. A place that occurs in
  several groups keeps the label written last.
\<close>

definition place_id_merge_map :: "string list list \<Rightarrow> string \<rightharpoonup> nat" where
  "place_id_merge_map merged_groups =
     fold (\<lambda>(i, grp) m. fold (\<lambda>pid m'. m'(pid \<mapsto> i)) grp m)
       (enumerate 0 merged_groups) Map.empty"

text \<open>Line 98: the column \<^verbatim>\<open>merged_placeID\<close>; a place without a label gets NaN, here \<open>None\<close>.\<close>

definition merged_placeID :: "string list list \<Rightarrow> visit \<Rightarrow> nat option" where
  "merged_placeID merged_groups v = place_id_merge_map merged_groups (placeID v)"

text \<open>
  Lines 130 to 136: \<^verbatim>\<open>groupby\<close> hands the visits of each label that occurs in the column to
  \<^verbatim>\<open>collapse_visits\<close>, and \<^verbatim>\<open>reset_index\<close> makes the label a column again. The rows are
  listed here by the index of the group; pandas lists them by the text of the label.
\<close>

definition group_of :: "visit list \<Rightarrow> string list list \<Rightarrow> nat \<Rightarrow> visit list" where
  "group_of df_visits merged_groups i =
     filter (\<lambda>v. merged_placeID merged_groups v = Some i) df_visits"

definition collapsed_summary :: "visit list \<Rightarrow> string list list \<Rightarrow> (nat \<times> merged_row) list" where
  "collapsed_summary df_visits merged_groups =
     map (\<lambda>i. (i, collapse_visits (group_of df_visits merged_groups i)))
       (filter (\<lambda>i. group_of df_visits merged_groups i \<noteq> []) [0..<length merged_groups])"

text \<open>Line 138: only places visited more than 2 times are kept.\<close>

definition merged_summary :: "visit list \<Rightarrow> string list list \<Rightarrow> (nat \<times> merged_row) list" where
  "merged_summary df_visits merged_groups =
     filter (\<lambda>row. ms_num_visits (snd row) > 2) (collapsed_summary df_visits merged_groups)"

section \<open>Notions used in the statements\<close>

text \<open>The windows that the sweep emits when it continues from an open window \<open>w\<close>.\<close>

definition run_from :: "int \<times> int \<Rightarrow> visit list \<Rightarrow> (int \<times> int) list" where
  "run_from w vs = add_final (sweep vs (Some w) [])"

text \<open>The test of line 68 on two visits.\<close>

definition overlaps :: "visit \<Rightarrow> visit \<Rightarrow> bool" where
  "overlaps v1 v2 = (max (start v1) (start v2) < min (end_time v1) (end_time v2))"

text \<open>The three conditions under which \<^verbatim>\<open>smart_merge\<close> merges a pair (lines 51, 58 and 64 to 68).\<close>

definition sparse :: "visit list \<Rightarrow> int \<Rightarrow> place_row \<Rightarrow> bool" where
  "sparse df_visits min_visits place2 =
     (int (length (visits_of df_visits (ps_placeID place2))) < min_visits)"

definition heavy :: "visit list \<Rightarrow> place_row \<Rightarrow> bool" where
  "heavy df_visits place =
     (sum_list (map duration_min (visits_of df_visits (ps_placeID place))) > 700)"

definition heavy_by :: "(real list \<Rightarrow> real) \<Rightarrow> visit list \<Rightarrow> place_row \<Rightarrow> bool" where
  "heavy_by column_sum df_visits place =
     (column_sum (map duration_min (visits_of df_visits (ps_placeID place))) > 700)"

definition any_overlap :: "visit list \<Rightarrow> place_row \<Rightarrow> place_row \<Rightarrow> bool" where
  "any_overlap df_visits place1 place2 =
     (\<exists>v1\<in>set (visits_of df_visits (ps_placeID place1)).
      \<exists>v2\<in>set (visits_of df_visits (ps_placeID place2)). overlaps v1 v2)"

text \<open>
  A distance for evaluating the merger on concrete tables: 111000 meters for each degree
  of latitude and of longitude. It takes the place of the geodesic of geopy in the
  examples only; every general statement below holds for all distance functions.
\<close>

definition grid_meters :: metric where
  "grid_meters p q = 111000 * (\<bar>fst p - fst q\<bar> + \<bar>snd p - snd q\<bar>)"

section \<open>Example frames\<close>

text \<open>
  Small frames of visits on which the statements below are evaluated. The places \<open>A\<close>
  and \<open>B\<close> lie on one meridian; a thousandth of a degree of latitude is 111 meters
  for \<open>grid_meters\<close>.
\<close>

text \<open>Place \<open>A\<close> with five visits, place \<open>B\<close> with one visit later on, 111 meters away.\<close>

definition df_sparse :: "visit list" where
  "df_sparse =
     [parse_visit 0 600 ''A'' 38 (-78), parse_visit 1000 1600 ''A'' 38 (-78),
      parse_visit 2000 2600 ''A'' 38 (-78), parse_visit 3000 3600 ''A'' 38 (-78),
      parse_visit 4000 4600 ''A'' 38 (-78),
      parse_visit 9000 9600 ''B'' (38001 / 1000) (-78)]"

text \<open>
  Two places 111 meters apart, each with two visits of 400 minutes, no two visits
  overlapping.
\<close>

definition df_heavy :: "visit list" where
  "df_heavy =
     [parse_visit 0 24000 ''A'' 38 (-78), parse_visit 30000 54000 ''A'' 38 (-78),
      parse_visit 60000 84000 ''B'' (38001 / 1000) (-78),
      parse_visit 90000 114000 ''B'' (38001 / 1000) (-78)]"

text \<open>
  Two places with two short visits each; the first visit of \<open>B\<close> begins during the
  first visit of \<open>A\<close>. The latitude of \<open>B\<close> is a parameter.
\<close>

definition df_overlap :: "real \<Rightarrow> visit list" where
  "df_overlap lat2 =
     [parse_visit 0 600 ''A'' 38 (-78), parse_visit 1000 1600 ''A'' 38 (-78),
      parse_visit 300 900 ''B'' lat2 (-78), parse_visit 5000 5600 ''B'' lat2 (-78)]"

text \<open>
  Two places with two short visits each, no two visits overlapping. The latitude of
  \<open>B\<close> is a parameter.
\<close>

definition df_apart :: "real \<Rightarrow> visit list" where
  "df_apart lat2 =
     [parse_visit 0 600 ''A'' 38 (-78), parse_visit 1000 1600 ''A'' 38 (-78),
      parse_visit 2000 2600 ''B'' lat2 (-78), parse_visit 3000 3600 ''B'' lat2 (-78)]"

text \<open>Place \<open>A\<close> with one visit and place \<open>B\<close> with two later visits at the same coordinates.\<close>

definition df_seed :: "visit list" where
  "df_seed =
     [parse_visit 0 600 ''A'' 38 (-78),
      parse_visit 1000 1600 ''B'' 38 (-78), parse_visit 2000 2600 ''B'' 38 (-78)]"

text \<open>
  Two places a degree apart: the visits of \<open>A\<close> collapse to three windows, those of
  \<open>B\<close> to two.
\<close>

definition df_counts :: "visit list" where
  "df_counts =
     [parse_visit 0 600 ''A'' 38 (-78), parse_visit 1000 1600 ''A'' 38 (-78),
      parse_visit 1500 1900 ''A'' 38 (-78), parse_visit 3000 3600 ''A'' 38 (-78),
      parse_visit 0 600 ''B'' 39 (-78), parse_visit 1000 1600 ''B'' 39 (-78),
      parse_visit 1600 2000 ''B'' 39 (-78)]"

text \<open>
  A group in which two visits start together, sorted by start in the order that a
  stable sort would not give.
\<close>

definition df_ties :: "visit list" where
  "df_ties =
     [parse_visit 0 60 ''A'' 38 (-78), parse_visit 0 30 ''B'' 38 (-78),
      parse_visit 100 110 ''A'' 38 (-78)]"

definition df_ties_sorted :: "visit list" where
  "df_ties_sorted =
     [parse_visit 0 30 ''B'' 38 (-78), parse_visit 0 60 ''A'' 38 (-78),
      parse_visit 100 110 ''A'' 38 (-78)]"

section \<open>Properties of the interval collapser\<close>

text \<open>
  The windows closed so far are only ever extended at the end, so the sweep can be
  read as a function of the open window and the visits still to come.
\<close>

lemma add_final_sweep_acc:
  "add_final (sweep vs cur merged) = merged @ add_final (sweep vs cur [])"
proof (induction vs arbitrary: cur merged)
  case Nil
  show ?case by (cases cur) (simp_all add: add_final_def)
next
  case (Cons v vs)
  show ?case
  proof (cases cur)
    case None
    then show ?thesis using Cons [of "Some (start v, end_time v)" merged] by simp
  next
    case (Some w)
    obtain cs ce where w: "w = (cs, ce)" by (cases w)
    show ?thesis
    proof (cases "start v \<le> ce")
      case True
      then show ?thesis using Cons [of "Some (cs, max ce (end_time v))" merged]
        by (simp add: Some w)
    next
      case False
      then show ?thesis
        using Cons [of "Some (start v, end_time v)" "merged @ [(cs, ce)]"]
          Cons [of "Some (start v, end_time v)" "[(cs, ce)]"]
        by (simp add: Some w)
    qed
  qed
qed

lemma run_from_Nil: "run_from w [] = [w]"
  by (simp add: run_from_def add_final_def)

lemma run_from_Cons:
  "run_from (cs, ce) (v # vs) =
     (if start v \<le> ce then run_from (cs, max ce (end_time v)) vs
      else (cs, ce) # run_from (start v, end_time v) vs)"
  using add_final_sweep_acc [of vs "Some (start v, end_time v)" "[(cs, ce)]"]
  by (simp add: run_from_def)

lemma collapse_windows_run:
  "collapse_windows vs =
     (case sort_key start vs of [] \<Rightarrow> [] | v # rest \<Rightarrow> run_from (start v, end_time v) rest)"
  by (cases "sort_key start vs") (simp_all add: collapse_windows_def run_from_def add_final_def)

lemma run_from_nonempty: "run_from w vs \<noteq> []"
proof (induction vs arbitrary: w)
  case Nil
  show ?case by (simp add: run_from_Nil)
next
  case (Cons v vs)
  obtain cs ce where w: "w = (cs, ce)" by (cases w)
  show ?case using Cons [of "(cs, max ce (end_time v))"] by (simp add: w run_from_Cons)
qed

lemma run_from_hd: "fst (hd (run_from (cs, ce) vs)) = cs"
  by (induction vs arbitrary: ce) (auto simp: run_from_Nil run_from_Cons)

lemma run_from_length: "length (run_from w vs) \<le> Suc (length vs)"
proof (induction vs arbitrary: w)
  case Nil
  show ?case by (simp add: run_from_Nil)
next
  case (Cons v vs)
  obtain cs ce where w: "w = (cs, ce)" by (cases w)
  show ?case using Cons [of "(cs, max ce (end_time v))"] Cons [of "(start v, end_time v)"]
    by (simp add: w run_from_Cons)
qed

text \<open>
  For every input sorted by \<^verbatim>\<open>start\<close>, valid or not, each window begins after the end
  of the window before it.
\<close>

lemma run_from_gaps:
  "sorted (map start vs) \<Longrightarrow> \<forall>v\<in>set vs. cs \<le> start v \<Longrightarrow>
   successively (\<lambda>a b. snd a < fst b) (run_from (cs, ce) vs) \<and>
   (\<forall>w\<in>set (run_from (cs, ce) vs). cs \<le> fst w)"
proof (induction vs arbitrary: cs ce)
  case Nil
  show ?case by (simp add: run_from_Nil)
next
  case (Cons v vs)
  show ?case
  proof (cases "start v \<le> ce")
    case True
    with Cons.IH [of cs "max ce (end_time v)"] Cons.prems show ?thesis
      by (simp add: run_from_Cons)
  next
    case False
    have ih: "successively (\<lambda>a b. snd a < fst b) (run_from (start v, end_time v) vs) \<and>
       (\<forall>w\<in>set (run_from (start v, end_time v) vs). start v \<le> fst w)"
      using Cons.IH [of "start v" "end_time v"] Cons.prems by simp
    have ne: "run_from (start v, end_time v) vs \<noteq> []" by (rule run_from_nonempty)
    have hd: "fst (hd (run_from (start v, end_time v) vs)) = start v" by (rule run_from_hd)
    have cs: "cs \<le> start v" using Cons.prems by simp
    show ?thesis using False ih ne hd cs
      by (cases "run_from (start v, end_time v) vs") (auto simp: run_from_Cons)
  qed
qed

lemma run_from_valid:
  "cs \<le> ce \<Longrightarrow> \<forall>v\<in>set vs. start v \<le> end_time v \<Longrightarrow> sorted (map start vs) \<Longrightarrow>
   \<forall>v\<in>set vs. cs \<le> start v \<Longrightarrow>
   sorted_wrt (\<lambda>a b. snd a < fst b) (run_from (cs, ce) vs) \<and>
   (\<forall>w\<in>set (run_from (cs, ce) vs). cs \<le> fst w \<and> fst w \<le> snd w)"
proof (induction vs arbitrary: cs ce)
  case Nil
  then show ?case by (simp add: run_from_Nil)
next
  case (Cons v vs)
  show ?case
  proof (cases "start v \<le> ce")
    case True
    have "cs \<le> max ce (end_time v)" using Cons.prems(1) by simp
    with True Cons.IH [of cs "max ce (end_time v)"] Cons.prems(2-) show ?thesis
      by (simp add: run_from_Cons)
  next
    case False
    have ih: "sorted_wrt (\<lambda>a b. snd a < fst b) (run_from (start v, end_time v) vs) \<and>
       (\<forall>w\<in>set (run_from (start v, end_time v) vs). start v \<le> fst w \<and> fst w \<le> snd w)"
      using Cons.IH [of "start v" "end_time v"] Cons.prems by simp
    show ?thesis using False ih Cons.prems(1,4)
      by (fastforce simp: run_from_Cons)
  qed
qed

lemma run_from_cover:
  "cs \<le> ce \<Longrightarrow> \<forall>v\<in>set vs. start v \<le> end_time v \<Longrightarrow> sorted (map start vs) \<Longrightarrow>
   \<forall>v\<in>set vs. cs \<le> start v \<Longrightarrow>
   (\<Union>w\<in>set (run_from (cs, ce) vs). {real_of_int (fst w)..real_of_int (snd w)}) =
   {real_of_int cs..real_of_int ce} \<union> (\<Union>v\<in>set vs. {real_of_int (start v)..real_of_int (end_time v)})"
proof (induction vs arbitrary: cs ce)
  case Nil
  then show ?case by (simp add: run_from_Nil)
next
  case (Cons v vs)
  show ?case
  proof (cases "start v \<le> ce")
    case True
    have "{real_of_int cs..real_of_int (max ce (end_time v))} =
          {real_of_int cs..real_of_int ce} \<union> {real_of_int (start v)..real_of_int (end_time v)}"
      using True Cons.prems by (auto simp: max_def)
    moreover have "cs \<le> max ce (end_time v)" using Cons.prems(1) by simp
    ultimately show ?thesis using True Cons.IH [of cs "max ce (end_time v)"] Cons.prems(2-)
      by (simp add: run_from_Cons Un_assoc)
  next
    case False
    with Cons.IH [of "start v" "end_time v"] Cons.prems show ?thesis
      by (simp add: run_from_Cons)
  qed
qed

lemma run_from_contains:
  "sorted (map start vs) \<Longrightarrow> \<forall>v\<in>set vs. cs \<le> start v \<Longrightarrow>
   (\<exists>w\<in>set (run_from (cs, ce) vs). fst w \<le> cs \<and> ce \<le> snd w) \<and>
   (\<forall>v\<in>set vs. \<exists>w\<in>set (run_from (cs, ce) vs). fst w \<le> start v \<and> end_time v \<le> snd w)"
proof (induction vs arbitrary: cs ce)
  case Nil
  then show ?case by (simp add: run_from_Nil)
next
  case (Cons v vs)
  show ?case
  proof (cases "start v \<le> ce")
    case True
    have ih:
      "(\<exists>w\<in>set (run_from (cs, max ce (end_time v)) vs).
          fst w \<le> cs \<and> max ce (end_time v) \<le> snd w) \<and>
       (\<forall>u\<in>set vs. \<exists>w\<in>set (run_from (cs, max ce (end_time v)) vs).
          fst w \<le> start u \<and> end_time u \<le> snd w)"
      using Cons.IH [of cs "max ce (end_time v)"] Cons.prems by simp
    then obtain w where w: "w \<in> set (run_from (cs, max ce (end_time v)) vs)" "fst w \<le> cs"
      "max ce (end_time v) \<le> snd w" by blast
    have "fst w \<le> start v" using w(2) Cons.prems by simp
    with w ih True show ?thesis
      by (auto simp: run_from_Cons)
  next
    case False
    have ih:
      "(\<exists>w\<in>set (run_from (start v, end_time v) vs).
          fst w \<le> start v \<and> end_time v \<le> snd w) \<and>
       (\<forall>u\<in>set vs. \<exists>w\<in>set (run_from (start v, end_time v) vs).
          fst w \<le> start u \<and> end_time u \<le> snd w)"
      using Cons.IH [of "start v" "end_time v"] Cons.prems by simp
    with False show ?thesis
      by (auto simp: run_from_Cons)
  qed
qed

lemma run_from_sorted_starts:
  "sorted (map start vs) \<Longrightarrow> \<forall>v\<in>set vs. cs \<le> start v \<Longrightarrow>
   sorted (map fst (run_from (cs, ce) vs)) \<and> (\<forall>w\<in>set (run_from (cs, ce) vs). cs \<le> fst w)"
proof (induction vs arbitrary: cs ce)
  case Nil
  show ?case by (simp add: run_from_Nil)
next
  case (Cons v vs)
  show ?case
  proof (cases "start v \<le> ce")
    case True
    with Cons.IH [of cs "max ce (end_time v)"] Cons.prems show ?thesis
      by (simp add: run_from_Cons)
  next
    case False
    have ih: "sorted (map fst (run_from (start v, end_time v) vs)) \<and>
       (\<forall>w\<in>set (run_from (start v, end_time v) vs). start v \<le> fst w)"
      using Cons.IH [of "start v" "end_time v"] Cons.prems by simp
    show ?thesis using False ih Cons.prems(2)
      by (fastforce simp: run_from_Cons)
  qed
qed

lemma run_from_separated_input:
  "successively (\<lambda>a b. end_time a < start b) (x # xs) \<Longrightarrow>
   run_from (start x, end_time x) xs = map (\<lambda>v. (start v, end_time v)) (x # xs)"
proof (induction xs arbitrary: x)
  case Nil
  show ?case by (simp add: run_from_Nil)
next
  case (Cons y ys)
  then show ?case by (simp add: run_from_Cons)
qed

lemma collapse_windows_gaps:
  "successively (\<lambda>a b. snd a < fst b) (collapse_windows vs) \<and>
   sorted (map fst (collapse_windows vs))"
proof (cases "sort_key start vs")
  case Nil
  then show ?thesis by (simp add: collapse_windows_run)
next
  case (Cons v rest)
  have "sorted (map start (v # rest))" using sorted_sort_key [of start vs] Cons by simp
  then have s: "sorted (map start rest)" and le: "\<forall>u\<in>set rest. start v \<le> start u" by simp_all
  show ?thesis
    using run_from_gaps [OF s le, of "end_time v"] run_from_sorted_starts [OF s le, of "end_time v"]
    by (simp add: collapse_windows_run Cons)
qed

lemma collapse_windows_fixed:
  assumes "map (\<lambda>v. (start v, end_time v)) again = collapse_windows vs"
  shows "collapse_windows again = collapse_windows vs"
proof -
  have g: "successively (\<lambda>a b. snd a < fst b) (map (\<lambda>v. (start v, end_time v)) again)"
    and s: "sorted (map fst (map (\<lambda>v. (start v, end_time v)) again))"
    using collapse_windows_gaps [of vs] assms by simp_all
  have s': "sorted (map start again)" using s by (simp add: comp_def)
  have g': "successively (\<lambda>a b. end_time a < start b) again"
    using g by (simp add: successively_map)
  have sk: "sort_key start again = again" using s' by (rule sort_key_id_if_sorted)
  have "collapse_windows again = map (\<lambda>v. (start v, end_time v)) again"
  proof (cases again)
    case Nil
    then show ?thesis by (simp add: collapse_windows_run)
  next
    case (Cons x xs)
    then show ?thesis using run_from_separated_input [of x xs] g' sk
      by (simp add: collapse_windows_run)
  qed
  then show ?thesis using assms by simp
qed

lemma collapse_windows_valid:
  assumes "\<forall>v\<in>set vs. start v \<le> end_time v"
  shows "sorted_wrt (\<lambda>a b. snd a < fst b) (collapse_windows vs) \<and>
         (\<forall>w\<in>set (collapse_windows vs). fst w \<le> snd w)"
proof (cases "sort_key start vs")
  case Nil
  then show ?thesis by (simp add: collapse_windows_run)
next
  case (Cons v rest)
  have "sorted (map start (v # rest))" using sorted_sort_key [of start vs] Cons by simp
  then have s: "sorted (map start rest)" and le: "\<forall>u\<in>set rest. start v \<le> start u" by simp_all
  have "set (v # rest) = set vs" using set_sort [of start vs] Cons by simp
  then have v: "start v \<le> end_time v" and r: "\<forall>u\<in>set rest. start u \<le> end_time u"
    using assms by auto
  show ?thesis
    using run_from_valid [OF v r s le]
    by (simp add: collapse_windows_run Cons)
qed

lemma collapse_windows_length: "length (collapse_windows vs) \<le> length vs"
proof (cases "sort_key start vs")
  case Nil
  then show ?thesis by (simp add: collapse_windows_run)
next
  case (Cons v rest)
  have "length (v # rest) = length vs" using length_sort [of start vs] Cons by simp
  then show ?thesis using run_from_length [of "(start v, end_time v)" rest]
    by (simp add: collapse_windows_run Cons)
qed

lemma collapse_windows_cover:
  assumes "\<forall>v\<in>set vs. start v \<le> end_time v"
  shows "(\<Union>w\<in>set (collapse_windows vs). {real_of_int (fst w)..real_of_int (snd w)}) =
         (\<Union>v\<in>set vs. {real_of_int (start v)..real_of_int (end_time v)})"
proof (cases "sort_key start vs")
  case Nil
  then have "vs = []" using length_sort [of start vs] by simp
  then show ?thesis by (simp add: collapse_windows_run)
next
  case (Cons v rest)
  have "sorted (map start (v # rest))" using sorted_sort_key [of start vs] Cons by simp
  then have s: "sorted (map start rest)" and le: "\<forall>u\<in>set rest. start v \<le> start u" by simp_all
  have set: "set vs = insert v (set rest)" using set_sort [of start vs] Cons by simp
  then have v: "start v \<le> end_time v" and r: "\<forall>u\<in>set rest. start u \<le> end_time u"
    using assms by auto
  show ?thesis
    using run_from_cover [OF v r s le]
    by (simp add: collapse_windows_run Cons set)
qed

lemma collapse_windows_contains:
  assumes "v \<in> set vs"
  shows "\<exists>w\<in>set (collapse_windows vs). fst w \<le> start v \<and> end_time v \<le> snd w"
proof (cases "sort_key start vs")
  case Nil
  then have "vs = []" using length_sort [of start vs] by simp
  then show ?thesis using assms by simp
next
  case (Cons u rest)
  have "sorted (map start (u # rest))" using sorted_sort_key [of start vs] Cons by simp
  then have s: "sorted (map start rest)" and le: "\<forall>x\<in>set rest. start u \<le> start x" by simp_all
  have set: "set vs = insert u (set rest)" using set_sort [of start vs] Cons by simp
  show ?thesis
    using run_from_contains [OF s le, of "end_time u"] assms
    by (auto simp: collapse_windows_run Cons set)
qed

lemma sorted_wrt_two:
  "sorted_wrt P xs \<Longrightarrow> a \<in> set xs \<Longrightarrow> b \<in> set xs \<Longrightarrow> a = b \<or> P a b \<or> P b a"
  by (induction xs) auto

lemma collapse_windows_same_window:
  assumes valid: "\<forall>v\<in>set vs. start v \<le> end_time v"
    and v1: "v1 \<in> set vs" and v2: "v2 \<in> set vs"
    and touch: "start v1 \<le> start v2" "start v2 \<le> end_time v1"
  shows "\<exists>w\<in>set (collapse_windows vs).
           fst w \<le> start v1 \<and> end_time v1 \<le> snd w \<and> fst w \<le> start v2 \<and> end_time v2 \<le> snd w"
proof -
  obtain w1 where w1: "w1 \<in> set (collapse_windows vs)" "fst w1 \<le> start v1" "end_time v1 \<le> snd w1"
    using collapse_windows_contains [OF v1] by blast
  obtain w2 where w2: "w2 \<in> set (collapse_windows vs)" "fst w2 \<le> start v2" "end_time v2 \<le> snd w2"
    using collapse_windows_contains [OF v2] by blast
  have sep: "sorted_wrt (\<lambda>a b. snd a < fst b) (collapse_windows vs)"
    using collapse_windows_valid [OF valid] by simp
  have "start v2 \<le> end_time v2" using valid v2 by simp
  then have "\<not> snd w1 < fst w2" "\<not> snd w2 < fst w1"
    using w1 w2 touch by linarith+
  then have "w1 = w2" using sorted_wrt_two [OF sep w1(1) w2(1)] by blast
  then show ?thesis using w1 w2 by blast
qed

text \<open>
  For visits with \<open>start \<le> end\<close> the windows do not depend on the order in which
  the sort leaves visits of equal start: the sweep gives the same windows on every
  arrangement of the group that is sorted by start.
\<close>

lemma run_from_cong:
  assumes "\<And>w'. run_from w' xs = run_from w' ys"
  shows "run_from w (p # xs) = run_from w (p # ys)"
proof -
  obtain cs ce where w: "w = (cs, ce)" by (cases w)
  show ?thesis using assms by (simp add: w run_from_Cons)
qed

lemma run_from_swap:
  assumes "start p = start x" "start p \<le> end_time p" "start x \<le> end_time x"
  shows "run_from w (p # x # rest) = run_from w (x # p # rest)"
proof -
  obtain cs ce where w: "w = (cs, ce)" by (cases w)
  show ?thesis
  proof (cases "start p \<le> ce")
    case True
    have a: "start x \<le> ce" "start x \<le> max ce (end_time p)" "start p \<le> max ce (end_time x)"
      using True assms(1) by simp_all
    have l: "run_from w (p # x # rest) = run_from (cs, max (max ce (end_time p)) (end_time x)) rest"
      using True a(2) by (simp add: w run_from_Cons)
    have r: "run_from w (x # p # rest) = run_from (cs, max (max ce (end_time x)) (end_time p)) rest"
      using a(1,3) by (simp add: w run_from_Cons)
    have c: "max (max ce (end_time p)) (end_time x) = max (max ce (end_time x)) (end_time p)"
      by linarith
    show ?thesis unfolding l r c ..
  next
    case False
    have a: "\<not> start x \<le> ce" "start x \<le> end_time p" "start p \<le> end_time x"
      using False assms by simp_all
    have l: "run_from w (p # x # rest) =
        (cs, ce) # run_from (start p, max (end_time p) (end_time x)) rest"
      using False a(2) by (simp add: w run_from_Cons)
    have r: "run_from w (x # p # rest) =
        (cs, ce) # run_from (start x, max (end_time x) (end_time p)) rest"
      using a(1,3) by (simp add: w run_from_Cons)
    have c: "max (end_time p) (end_time x) = max (end_time x) (end_time p)" by linarith
    show ?thesis unfolding l r c assms(1) ..
  qed
qed

lemma run_from_move_front:
  assumes "\<forall>p\<in>set pre. start p = start x \<and> start p \<le> end_time p" "start x \<le> end_time x"
  shows "run_from w (pre @ x # post) = run_from w (x # pre @ post)"
  using assms(1)
proof (induction pre arbitrary: w)
  case Nil
  show ?case by simp
next
  case (Cons p pre)
  have pre: "\<forall>q\<in>set pre. start q = start x \<and> start q \<le> end_time q"
    and p: "start p = start x" "start p \<le> end_time p"
    using Cons.prems by auto
  have ih: "\<And>w'. run_from w' (pre @ x # post) = run_from w' (x # pre @ post)"
    by (rule Cons.IH [OF pre])
  have "run_from w (p # pre @ x # post) = run_from w (p # x # pre @ post)"
    using ih by (rule run_from_cong)
  also have "\<dots> = run_from w (x # p # pre @ post)"
    using p assms(2) by (rule run_from_swap)
  finally show ?case by simp
qed

lemma run_from_tie_order:
  assumes "mset xs = mset ys" "sorted (map start xs)" "sorted (map start ys)"
    "\<forall>v\<in>set xs. start v \<le> end_time v"
  shows "run_from w xs = run_from w ys"
  using assms
proof (induction xs arbitrary: ys w)
  case Nil
  then show ?case by simp
next
  case (Cons x xs)
  have "x \<in> set ys" using Cons.prems(1) by (metis list.set_intros(1) mset_eq_setD)
  then obtain pre post where ys: "ys = pre @ x # post" by (meson split_list)
  have sets: "set ys = set (x # xs)" using Cons.prems(1) by (metis mset_eq_setD)
  have pre: "\<forall>p\<in>set pre. start p = start x \<and> start p \<le> end_time p"
  proof
    fix p assume p: "p \<in> set pre"
    then have "p \<in> set (x # xs)" using sets ys by auto
    then have ge: "start x \<le> start p" and v: "start p \<le> end_time p"
      using Cons.prems(2,4) by auto
    have "start p \<le> start x" using Cons.prems(3) p by (auto simp: ys sorted_append)
    then show "start p = start x \<and> start p \<le> end_time p" using ge v by simp
  qed
  have m: "mset xs = mset (pre @ post)" using Cons.prems(1) by (simp add: ys)
  have s: "sorted (map start (pre @ post))" using Cons.prems(3) by (auto simp: ys sorted_append)
  have sx: "sorted (map start xs)" and vx: "\<forall>v\<in>set xs. start v \<le> end_time v"
    and v: "start x \<le> end_time x"
    using Cons.prems(2,4) by simp_all
  have ih: "\<And>w'. run_from w' (pre @ post) = run_from w' xs"
    using Cons.IH [OF m sx s vx] by (rule sym)
  have "run_from w ys = run_from w (x # pre @ post)"
    unfolding ys using pre v by (rule run_from_move_front)
  also have "\<dots> = run_from w (x # xs)"
    using ih by (rule run_from_cong)
  finally show ?case by (rule sym)
qed

lemma sweep_as_run:
  assumes "start y \<le> end_time y"
  shows "add_final (sweep (y # ys) None []) = run_from (start y, start y) (y # ys)"
  using assms by (simp add: run_from_Cons run_from_def max_def)

lemma collapse_windows_tie_order:
  assumes "mset ys = mset group_visits" "sorted (map start ys)"
    "\<forall>v\<in>set group_visits. start v \<le> end_time v"
  shows "add_final (sweep ys None []) = collapse_windows group_visits"
proof (cases ys)
  case Nil
  then show ?thesis using assms(1) by (simp add: collapse_windows_def)
next
  case (Cons y ys')
  let ?xs = "sort_key start group_visits"
  have mx: "mset ?xs = mset ys" using assms(1) by simp
  have "?xs \<noteq> []"
  proof
    assume e: "?xs = []"
    have "set ?xs = set ys" using mx by (rule mset_eq_setD)
    then show False using Cons by (simp add: e)
  qed
  then obtain x xs' where xs: "?xs = x # xs'" by (cases ?xs) auto
  have sx: "sorted (map start ?xs)" by (rule sorted_sort_key)
  have sets: "set ys = set group_visits" using assms(1) by (metis mset_eq_setD)
  have vy: "\<forall>v\<in>set ys. start v \<le> end_time v" using assms(3) sets by simp
  have "x \<in> set ys" using xs sets set_sort [of start group_visits] by auto
  then have 1: "start y \<le> start x" using assms(2) Cons by auto
  have "y \<in> set ?xs" using sets Cons by auto
  then have 2: "start x \<le> start y" using sx xs by auto
  have "add_final (sweep ys None []) = run_from (start y, start y) ys"
    using sweep_as_run [of y ys'] vy Cons by simp
  also have "\<dots> = run_from (start y, start y) ?xs"
    using run_from_tie_order [OF mx [symmetric] assms(2) sx vy] by simp
  also have "\<dots> = run_from (start x, start x) (x # xs')" using 1 2 xs by simp
  also have "\<dots> = add_final (sweep (x # xs') None [])"
    using sweep_as_run [of x xs'] assms(3) xs set_sort [of start group_visits]
    by (metis list.set_intros(1))
  finally show ?thesis by (simp add: collapse_windows_def xs)
qed

section \<open>Claims about the interval collapser\<close>

text \<open>
  Claim C2. For every group of visits with \<open>start \<le> end\<close> each, the collapser sorts by
  start and sweeps so that overlapping or exactly adjacent intervals are unioned into
  one window: the windows cover exactly the time that the visits cover, and two visits
  of which the second starts within the first (or exactly at its end) lie in one
  window. In particular the two visits 10:00 to 11:00 and 10:30 to 11:30 of a day give
  the one window 10:00 to 11:30, a visit count of 1 and a total of 90 minutes.
\<close>

theorem collapse_visits_unions:
  assumes "\<forall>v\<in>set group_visits. start v \<le> end_time v"
  shows "(\<Union>w\<in>set (collapse_windows group_visits). {real_of_int (fst w)..real_of_int (snd w)}) =
           (\<Union>v\<in>set group_visits. {real_of_int (start v)..real_of_int (end_time v)}) \<and>
         (\<forall>v1\<in>set group_visits. \<forall>v2\<in>set group_visits.
            start v1 \<le> start v2 \<and> start v2 \<le> end_time v1 \<longrightarrow>
            (\<exists>w\<in>set (collapse_windows group_visits).
               fst w \<le> start v1 \<and> end_time v1 \<le> snd w \<and>
               fst w \<le> start v2 \<and> end_time v2 \<le> snd w)) \<and>
         collapse_windows [parse_visit (day + 36000) (day + 39600) pid1 lat1 lng1,
                           parse_visit (day + 37800) (day + 41400) pid2 lat2 lng2] =
           [(day + 36000, day + 41400)] \<and>
         ms_num_visits (collapse_visits
            [parse_visit (day + 36000) (day + 39600) pid1 lat1 lng1,
             parse_visit (day + 37800) (day + 41400) pid2 lat2 lng2]) = 1 \<and>
         ms_total_duration_min (collapse_visits
            [parse_visit (day + 36000) (day + 39600) pid1 lat1 lng1,
             parse_visit (day + 37800) (day + 41400) pid2 lat2 lng2]) = 90"
proof -
  let ?two = "[parse_visit (day + 36000) (day + 39600) pid1 lat1 lng1,
               parse_visit (day + 37800) (day + 41400) pid2 lat2 lng2]"
  have cover: "(\<Union>w\<in>set (collapse_windows group_visits). {real_of_int (fst w)..real_of_int (snd w)}) =
           (\<Union>v\<in>set group_visits. {real_of_int (start v)..real_of_int (end_time v)})"
    using assms by (rule collapse_windows_cover)
  have same: "\<forall>v1\<in>set group_visits. \<forall>v2\<in>set group_visits.
            start v1 \<le> start v2 \<and> start v2 \<le> end_time v1 \<longrightarrow>
            (\<exists>w\<in>set (collapse_windows group_visits).
               fst w \<le> start v1 \<and> end_time v1 \<le> snd w \<and>
               fst w \<le> start v2 \<and> end_time v2 \<le> snd w)"
    using collapse_windows_same_window [OF assms] by blast
  have w: "collapse_windows ?two = [(day + 36000, day + 41400)]"
    by (simp add: collapse_windows_def add_final_def parse_visit_def)
  have n: "ms_num_visits (collapse_visits ?two) = 1"
    using w by (simp add: collapse_visits_def)
  have t: "ms_total_duration_min (collapse_visits ?two) = 90"
    using w by (simp add: collapse_visits_def minutes_def)
  show ?thesis using cover same w n t by blast
qed

theorem collapse_visits_unions_witness:
  "start (parse_visit 36000 39600 ''A'' 38 (-78)) \<le> end_time (parse_visit 36000 39600 ''A'' 38 (-78)) \<and>
   start (parse_visit 37800 41400 ''B'' 38 (-78)) \<le> end_time (parse_visit 37800 41400 ''B'' 38 (-78)) \<and>
   (\<Union>w\<in>set (collapse_windows
        [parse_visit 36000 39600 ''A'' 38 (-78), parse_visit 37800 41400 ''B'' 38 (-78)]).
      {real_of_int (fst w)..real_of_int (snd w)}) = {36000..39600} \<union> {37800..41400} \<and>
   (\<exists>w\<in>set (collapse_windows
        [parse_visit 36000 39600 ''A'' 38 (-78), parse_visit 37800 41400 ''B'' 38 (-78)]).
      fst w \<le> 36000 \<and> 39600 \<le> snd w \<and> fst w \<le> 37800 \<and> 41400 \<le> snd w) \<and>
   collapse_windows [parse_visit 36000 39600 ''A'' 38 (-78), parse_visit 37800 41400 ''B'' 38 (-78)]
     = [(36000, 41400)]"
proof -
  let ?g = "[parse_visit 36000 39600 ''A'' 38 (-78), parse_visit 37800 41400 ''B'' 38 (-78)]"
  have h: "\<forall>v\<in>set ?g. start v \<le> end_time v" by (simp add: parse_visit_def)
  have s: "(\<Union>v\<in>set ?g. {real_of_int (start v)..real_of_int (end_time v)}) =
      {36000..39600} \<union> {37800..41400}" by (simp add: parse_visit_def)
  note th = collapse_visits_unions [OF h, of 0 "''A''" 38 "-78" "''B''" 38 "-78"]
  have c: "(\<Union>w\<in>set (collapse_windows ?g). {real_of_int (fst w)..real_of_int (snd w)}) =
      {36000..39600} \<union> {37800..41400}"
    unfolding s [symmetric] by (rule th [THEN conjunct1])
  have w: "collapse_windows ?g = [(36000, 41400)]"
    using th [THEN conjunct2, THEN conjunct2, THEN conjunct1] by simp
  have "\<forall>v1\<in>set ?g. \<forall>v2\<in>set ?g. start v1 \<le> start v2 \<and> start v2 \<le> end_time v1 \<longrightarrow>
      (\<exists>w\<in>set (collapse_windows ?g).
         fst w \<le> start v1 \<and> end_time v1 \<le> snd w \<and> fst w \<le> start v2 \<and> end_time v2 \<le> snd w)"
    by (rule th [THEN conjunct2, THEN conjunct1])
  then have b: "\<exists>w\<in>set (collapse_windows ?g).
      fst w \<le> 36000 \<and> 39600 \<le> snd w \<and> fst w \<le> 37800 \<and> 41400 \<le> snd w"
    by (simp add: parse_visit_def)
  show ?thesis using h c b w by simp
qed

text \<open>
  Claim C7 says that an input with a visit whose end lies before its start is rejected
  with an error before the sweep runs. \<^verbatim>\<open>collapse_visits\<close> validates nothing: for the one
  visit from 600 to 300 it returns the window \<open>(600, 300)\<close>, a visit count of 1 and a
  total of \<open>-5\<close> minutes.
\<close>

theorem collapse_visits_negative_window:
  "collapse_windows [parse_visit 600 300 ''A'' 38 (-78)] = [(600, 300)] \<and>
   ms_num_visits (collapse_visits [parse_visit 600 300 ''A'' 38 (-78)]) = 1 \<and>
   ms_total_duration_min (collapse_visits [parse_visit 600 300 ''A'' 38 (-78)]) = -5"
  by (simp add: collapse_visits_def collapse_windows_def add_final_def parse_visit_def minutes_def)

text \<open>
  Claim C7, as amended. A visit whose end lies before its start is not rejected: the
  collapser has no validation and sweeps every group. A group that is not empty yields
  at least one window and at most one for each visit; a group of one visit yields
  that visit as its window, with the total \<open>(end - start) / 60\<close> minutes, which is
  negative when the end lies before the start.
\<close>

theorem collapse_visits_unchecked:
  "(group_visits \<noteq> [] \<longrightarrow>
      1 \<le> ms_num_visits (collapse_visits group_visits) \<and>
      ms_num_visits (collapse_visits group_visits) \<le> length group_visits) \<and>
   collapse_windows [v] = [(start v, end_time v)] \<and>
   ms_num_visits (collapse_visits [v]) = 1 \<and>
   ms_total_duration_min (collapse_visits [v]) = real_of_int (end_time v - start v) / 60 \<and>
   (end_time v < start v \<longrightarrow> ms_total_duration_min (collapse_visits [v]) < 0)"
proof -
  have one: "collapse_windows [v] = [(start v, end_time v)]"
    by (simp add: collapse_windows_def add_final_def)
  have "group_visits \<noteq> [] \<longrightarrow> collapse_windows group_visits \<noteq> []"
  proof
    assume "group_visits \<noteq> []"
    then have "sort_key start group_visits \<noteq> []"
      using length_sort [of start group_visits] by (metis length_0_conv)
    then show "collapse_windows group_visits \<noteq> []"
      by (cases "sort_key start group_visits") (simp_all add: collapse_windows_run run_from_nonempty)
  qed
  then have "group_visits \<noteq> [] \<longrightarrow> 1 \<le> length (collapse_windows group_visits)"
    by (cases "collapse_windows group_visits") simp_all
  then show ?thesis using one collapse_windows_length [of group_visits]
    by (simp add: collapse_visits_def minutes_def Let_def)
qed

theorem collapse_visits_unchecked_witness:
  "[parse_visit 600 300 ''A'' 38 (-78)] \<noteq> [] \<and>
   end_time (parse_visit 600 300 ''A'' 38 (-78)) < start (parse_visit 600 300 ''A'' 38 (-78)) \<and>
   ms_num_visits (collapse_visits [parse_visit 600 300 ''A'' 38 (-78)]) = 1 \<and>
   ms_total_duration_min (collapse_visits [parse_visit 600 300 ''A'' 38 (-78)]) < 0"
  using collapse_visits_unchecked [of "[parse_visit 600 300 ''A'' 38 (-78)]"
      "parse_visit 600 300 ''A'' 38 (-78)"]
  by (simp add: parse_visit_def)

text \<open>
  Claim C8 says that the collapser is idempotent for every group. Two visits that
  start at 10, one ending at 9 and one at 20, are sorted by start in either order. In
  the order given the sweep emits the windows \<open>(10, 9)\<close> and \<open>(10, 20)\<close>; these two
  windows, as visits, are again sorted by start in either order, and with the second
  first the sweep emits the one window \<open>(10, 20)\<close>.
\<close>

theorem sweep_windows_tie_order_matters:
  "sorted (map start [parse_visit 10 9 ''A'' 38 (-78), parse_visit 10 20 ''A'' 38 (-78)]) \<and>
   sweep_windows [parse_visit 10 9 ''A'' 38 (-78), parse_visit 10 20 ''A'' 38 (-78)] =
     [(10, 9), (10, 20)] \<and>
   collapse_windows [parse_visit 10 9 ''A'' 38 (-78), parse_visit 10 20 ''A'' 38 (-78)] =
     [(10, 9), (10, 20)] \<and>
   map (\<lambda>v. (start v, end_time v))
     [parse_visit 10 9 ''W'' 38 (-78), parse_visit 10 20 ''W'' 38 (-78)] = [(10, 9), (10, 20)] \<and>
   mset [parse_visit 10 20 ''W'' 38 (-78), parse_visit 10 9 ''W'' 38 (-78)] =
     mset [parse_visit 10 9 ''W'' 38 (-78), parse_visit 10 20 ''W'' 38 (-78)] \<and>
   sorted (map start [parse_visit 10 20 ''W'' 38 (-78), parse_visit 10 9 ''W'' 38 (-78)]) \<and>
   sweep_windows [parse_visit 10 20 ''W'' 38 (-78), parse_visit 10 9 ''W'' 38 (-78)] =
     [(10, 20)]"
  by (simp add: sweep_windows_def collapse_windows_def add_final_def parse_visit_def)

text \<open>
  Claim C8, as amended. The collapser is idempotent on groups of visits with
  \<open>start \<le> end\<close> each: whatever order the sort leaves among visits of equal start, in
  the first run and in the second, running the sweep again on visits whose intervals
  are the windows it emitted yields the same windows, the same visit count and the
  same total duration.
\<close>

theorem collapse_visits_idempotent:
  assumes "\<forall>v\<in>set group_visits. start v \<le> end_time v"
    and "mset ys = mset group_visits" and "sorted (map start ys)"
    and "map (\<lambda>v. (start v, end_time v)) again = sweep_windows ys"
    and "mset zs = mset again" and "sorted (map start zs)"
  shows "sweep_windows zs = sweep_windows ys \<and>
         length (sweep_windows zs) = length (sweep_windows ys) \<and>
         sum_list (map minutes (sweep_windows zs)) = sum_list (map minutes (sweep_windows ys)) \<and>
         sweep_windows ys = collapse_windows group_visits \<and>
         collapse_windows again = collapse_windows group_visits \<and>
         ms_num_visits (collapse_visits again) = ms_num_visits (collapse_visits group_visits) \<and>
         ms_total_duration_min (collapse_visits again) =
           ms_total_duration_min (collapse_visits group_visits)"
proof -
  have first: "sweep_windows ys = collapse_windows group_visits"
    unfolding sweep_windows_def using assms(2,3,1) by (rule collapse_windows_tie_order)
  have iv: "map (\<lambda>v. (start v, end_time v)) again = collapse_windows group_visits"
    using assms(4) first by simp
  have fixed: "collapse_windows again = collapse_windows group_visits"
    using iv by (rule collapse_windows_fixed)
  have "\<forall>w\<in>set (map (\<lambda>v. (start v, end_time v)) again). fst w \<le> snd w"
    unfolding iv using collapse_windows_valid [OF assms(1)] by simp
  then have valid: "\<forall>v\<in>set again. start v \<le> end_time v" by simp
  have "sweep_windows zs = collapse_windows again"
    unfolding sweep_windows_def using assms(5,6) valid by (rule collapse_windows_tie_order)
  then have second: "sweep_windows zs = sweep_windows ys" using fixed first by simp
  show ?thesis using second first fixed by (simp add: collapse_visits_def Let_def)
qed

theorem collapse_visits_idempotent_witness:
  "list_all (\<lambda>v. start v \<le> end_time v) df_ties \<and>
   mset df_ties_sorted = mset df_ties \<and> sorted (map start df_ties_sorted) \<and>
   sort_key start df_ties \<noteq> df_ties_sorted \<and>
   sweep_windows df_ties_sorted = [(0, 60), (100, 110)] \<and>
   sweep_windows [parse_visit 0 60 ''W'' 0 0, parse_visit 100 110 ''W'' 0 0] =
     [(0, 60), (100, 110)] \<and>
   collapse_windows df_ties = [(0, 60), (100, 110)]"
proof -
  let ?a = "[parse_visit 0 60 ''W'' 0 0, parse_visit 100 110 ''W'' 0 0]"
  have v: "\<forall>v\<in>set df_ties. start v \<le> end_time v" by (simp add: df_ties_def parse_visit_def)
  have m: "mset df_ties_sorted = mset df_ties" by (simp add: df_ties_def df_ties_sorted_def)
  have s: "sorted (map start df_ties_sorted)" by (simp add: df_ties_sorted_def parse_visit_def)
  have w: "sweep_windows df_ties_sorted = [(0, 60), (100, 110)]"
    by (simp add: sweep_windows_def add_final_def df_ties_sorted_def parse_visit_def)
  have i: "map (\<lambda>v. (start v, end_time v)) ?a = sweep_windows df_ties_sorted"
    unfolding w by (simp add: parse_visit_def)
  have m2: "mset ?a = mset ?a" by simp
  have s2: "sorted (map start ?a)" by (simp add: parse_visit_def)
  have d: "sort_key start df_ties \<noteq> df_ties_sorted"
    by (simp add: df_ties_def df_ties_sorted_def parse_visit_def)
  note th = collapse_visits_idempotent [OF v m s i m2 s2]
  have r: "sweep_windows ?a = [(0, 60), (100, 110)]"
    using th [THEN conjunct1] w by simp
  have c: "collapse_windows df_ties = [(0, 60), (100, 110)]"
    using th [THEN conjunct2, THEN conjunct2, THEN conjunct2, THEN conjunct1] w by simp
  show ?thesis using v m s d w r c by (simp add: list_all_iff)
qed

text \<open>
  Claim C10. For every group of visits with \<open>start \<le> end\<close> each, every emitted window
  starts strictly after the end of the window before it, the windows are pairwise
  separated and strictly increasing, and the visit count is at most the number of
  visits.
\<close>

theorem collapse_windows_separated:
  assumes "\<forall>v\<in>set group_visits. start v \<le> end_time v"
  shows "successively (\<lambda>a b. snd a < fst b) (collapse_windows group_visits) \<and>
         sorted_wrt (\<lambda>a b. snd a < fst b) (collapse_windows group_visits) \<and>
         sorted_wrt (\<lambda>a b. fst a < fst b \<and> snd a < snd b) (collapse_windows group_visits) \<and>
         ms_num_visits (collapse_visits group_visits) \<le> length group_visits"
proof -
  let ?ws = "collapse_windows group_visits"
  have v: "sorted_wrt (\<lambda>a b. snd a < fst b) ?ws" "\<forall>w\<in>set ?ws. fst w \<le> snd w"
    using collapse_windows_valid [OF assms] by simp_all
  have "sorted_wrt (\<lambda>a b. fst a < fst b \<and> snd a < snd b) ?ws"
    using v(1)
  proof (rule sorted_wrt_mono_rel [rotated])
    fix a b assume "a \<in> set ?ws" "b \<in> set ?ws" "snd a < fst b"
    then show "fst a < fst b \<and> snd a < snd b" using v(2) by fastforce
  qed
  then show ?thesis
    using v(1) successively_if_sorted_wrt [OF v(1)] collapse_windows_length [of group_visits]
    by (simp add: collapse_visits_def Let_def)
qed

theorem collapse_windows_separated_witness:
  "list_all (\<lambda>v. start v \<le> end_time v)
     [parse_visit 0 60 ''A'' 38 (-78), parse_visit 100 110 ''A'' 38 (-78),
      parse_visit 30 90 ''B'' 38 (-78)] \<and>
   successively (\<lambda>a b. snd a < fst b)
     (collapse_windows [parse_visit 0 60 ''A'' 38 (-78), parse_visit 100 110 ''A'' 38 (-78),
              parse_visit 30 90 ''B'' 38 (-78)]) \<and>
   ms_num_visits (collapse_visits [parse_visit 0 60 ''A'' 38 (-78), parse_visit 100 110 ''A'' 38 (-78),
              parse_visit 30 90 ''B'' 38 (-78)]) \<le> 3"
proof -
  let ?g = "[parse_visit 0 60 ''A'' 38 (-78), parse_visit 100 110 ''A'' 38 (-78),
             parse_visit 30 90 ''B'' 38 (-78)]"
  have h: "\<forall>v\<in>set ?g. start v \<le> end_time v" by (simp add: parse_visit_def)
  show ?thesis using h collapse_windows_separated [OF h] by simp
qed

section \<open>Properties of the spatial merger\<close>

text \<open>
  The two loops over the visits append the second place once, at the first pair of
  visits that passes the test of line 68, and leave the state as it is when no pair
  passes.
\<close>

lemma scan_v2_result:
  "scan_v2 pid2 v1 visits2 (merged_group, used, overlap) =
     (if \<exists>v2\<in>set visits2. overlaps v1 v2
      then (merged_group @ [pid2], insert pid2 used, True)
      else (merged_group, used, overlap))"
proof (induction visits2)
  case Nil
  show ?case by simp
next
  case (Cons v2 vs2)
  have step: "scan_v2 pid2 v1 (v2 # vs2) (merged_group, used, overlap) =
      (if overlaps v1 v2 then (merged_group @ [pid2], insert pid2 used, True)
       else scan_v2 pid2 v1 vs2 (merged_group, used, overlap))"
    by (simp add: overlaps_def Let_def)
  show ?case unfolding step using Cons by auto
qed

lemma scan_v1_result:
  "scan_v1 pid2 visits1 visits2 (merged_group, used, False) =
     (if \<exists>v1\<in>set visits1. \<exists>v2\<in>set visits2. overlaps v1 v2
      then (merged_group @ [pid2], insert pid2 used, True)
      else (merged_group, used, False))"
proof (induction visits1)
  case Nil
  show ?case by simp
next
  case (Cons v1 vs1)
  show ?case using Cons by (auto simp: scan_v2_result)
qed

text \<open>What one pass of the loop body does to a pair that is not skipped at line 45.\<close>

lemma try_merge_result:
  assumes "ps_placeID place1 \<noteq> ps_placeID place2" "ps_placeID place2 \<notin> used"
  shows "try_merge geodesic df_visits distance_threshold_m min_visits place1 place2 (merged_group, used) =
     (if geodesic (ps_lat place1, ps_lng place1) (ps_lat place2, ps_lng place2) \<le> distance_threshold_m \<and>
         (sparse df_visits min_visits place2 \<or>
          heavy df_visits place1 \<and> heavy df_visits place2 \<or>
          any_overlap df_visits place1 place2)
      then (merged_group @ [ps_placeID place2], insert (ps_placeID place2) used)
      else (merged_group, used))"
  using assms
  by (simp add: try_merge_def Let_def scan_v1_result sparse_def heavy_def any_overlap_def)

lemma try_merge_cases:
  "try_merge geodesic df_visits distance_threshold_m min_visits place1 place2 (merged_group, used) =
     (merged_group, used) \<or>
   ps_placeID place2 \<notin> used \<and> ps_placeID place1 \<noteq> ps_placeID place2 \<and>
   try_merge geodesic df_visits distance_threshold_m min_visits place1 place2 (merged_group, used) =
     (merged_group @ [ps_placeID place2], insert (ps_placeID place2) used)"
proof (cases "ps_placeID place1 \<noteq> ps_placeID place2 \<and> ps_placeID place2 \<notin> used")
  case True
  then show ?thesis using try_merge_result [of place1 place2 used] by simp
next
  case False
  then show ?thesis by (auto simp: try_merge_def)
qed

text \<open>The same for the loop body with the sum of a column as a parameter.\<close>

lemma try_merge_by_result:
  assumes "ps_placeID place1 \<noteq> ps_placeID place2" "ps_placeID place2 \<notin> used"
  shows "try_merge_by column_sum geodesic df_visits distance_threshold_m min_visits place1 place2
           (merged_group, used) =
     (if geodesic (ps_lat place1, ps_lng place1) (ps_lat place2, ps_lng place2)
           \<le> distance_threshold_m \<and>
         (sparse df_visits min_visits place2 \<or>
          heavy_by column_sum df_visits place1 \<and> heavy_by column_sum df_visits place2 \<or>
          any_overlap df_visits place1 place2)
      then (merged_group @ [ps_placeID place2], insert (ps_placeID place2) used)
      else (merged_group, used))"
  using assms
  by (simp add: try_merge_by_def Let_def scan_v1_result sparse_def heavy_by_def any_overlap_def)

lemma try_merge_by_sum_list: "try_merge_by sum_list = try_merge"
  by (intro ext) (simp add: try_merge_by_def try_merge_def)

text \<open>
  The group only grows, and a place is marked used only when it is put into the
  group; so a place that the loop over \<open>place2\<close> merges stays in the group.
\<close>

lemma try_merge_grows:
  "try_merge geodesic df_visits distance_threshold_m min_visits place1 place2 (grp, used) = (grp', used')
   \<Longrightarrow> set grp \<subseteq> set grp' \<and> used' \<subseteq> used \<union> set grp'"
  using try_merge_cases [of geodesic df_visits distance_threshold_m min_visits place1 place2 grp used]
  by auto

lemma fold_try_merge_absorbs:
  assumes "place2 \<in> set rows" "ps_placeID place1 \<noteq> ps_placeID place2"
    "ps_placeID place2 \<notin> used \<or> ps_placeID place2 \<in> set grp"
    "geodesic (ps_lat place1, ps_lng place1) (ps_lat place2, ps_lng place2) \<le> distance_threshold_m"
    "sparse df_visits min_visits place2 \<or> heavy df_visits place1 \<and> heavy df_visits place2 \<or>
     any_overlap df_visits place1 place2"
  shows "ps_placeID place2 \<in> set (fst (fold
           (try_merge geodesic df_visits distance_threshold_m min_visits place1) rows (grp, used)))"
  using assms(1,3)
proof (induction rows arbitrary: grp used)
  case Nil
  then show ?case by simp
next
  case (Cons r rows)
  obtain grp1 used1 where st: "try_merge geodesic df_visits distance_threshold_m min_visits place1 r
      (grp, used) = (grp1, used1)" by fastforce
  have grow: "set grp \<subseteq> set grp1" "used1 \<subseteq> used \<union> set grp1"
    using try_merge_grows [OF st] by simp_all
  have "ps_placeID place2 \<notin> used1 \<or> ps_placeID place2 \<in> set grp1"
  proof (cases "ps_placeID place2 \<in> used1")
    case False
    then show ?thesis by simp
  next
    case True
    then show ?thesis using grow Cons.prems(2) by auto
  qed
  note inv = this
  show ?case
  proof (cases "place2 \<in> set rows")
    case True
    then show ?thesis using Cons.IH [OF True inv] st by simp
  next
    case False
    then have r: "r = place2" using Cons.prems(1) by simp
    have "ps_placeID place2 \<in> set grp1"
    proof (cases "ps_placeID place2 \<in> used")
      case True
      then show ?thesis using Cons.prems(2) grow by auto
    next
      case False
      then show ?thesis
        using try_merge_result [OF assms(2) False, of geodesic df_visits distance_threshold_m
            min_visits grp] assms(4,5) st r by auto
    qed
    moreover have "set grp1 \<subseteq> set (fst (fold
           (try_merge geodesic df_visits distance_threshold_m min_visits place1) rows (grp1, used1)))"
    proof (induction rows arbitrary: grp1 used1)
      case Nil
      show ?case by simp
    next
      case (Cons a rows)
      obtain g2 u2 where s2: "try_merge geodesic df_visits distance_threshold_m min_visits place1 a
          (grp1, used1) = (g2, u2)" by fastforce
      show ?case using Cons [of g2 u2] try_merge_grows [OF s2] by (auto simp: s2)
    qed
    ultimately show ?thesis using st by auto
  qed
qed

lemma summary_row_placeID: "ps_placeID (summary_row df_visits pid) = pid"
  by (simp add: summary_row_def Let_def)

lemmas merge_eval =
  smart_merge_def try_merge_def visits_of_def parse_visit_def grid_meters_def summary_row_def

section \<open>Claims about the spatial merger\<close>

text \<open>
  Claim C1 says that the groups returned by \<^verbatim>\<open>smart_merge\<close> are a partition of the places
  of the table. A place is marked used only when it is absorbed as \<open>place2\<close>, never when
  it opens a group of its own, so a later place can absorb it again. On \<open>df_seed\<close> with
  its table of the two places, \<open>A\<close> opens the first group; \<open>B\<close>, which has two visits
  and no overlap with \<open>A\<close>, is not merged into it; then \<open>B\<close> opens the second group and
  absorbs \<open>A\<close>, which has fewer than \<open>min_visits\<close> visits. The place \<open>A\<close> is in two
  groups. This holds for every distance function that puts two places with the same
  coordinates within the threshold.
\<close>

theorem smart_merge_seed_twice:
  assumes "geodesic (38, -78) (38, -78) \<le> distance_threshold_m"
  shows "smart_merge geodesic df_seed [summary_row df_seed ''A'', summary_row df_seed ''B'']
           distance_threshold_m 2 = [[''A''], [''B'', ''A'']]"
  using assms
  by (simp add: smart_merge_def try_merge_def visits_of_def parse_visit_def summary_row_def
      df_seed_def)

theorem smart_merge_seed_twice_witness:
  "grid_meters (38, -78) (38, -78) \<le> 130 \<and>
   smart_merge grid_meters df_seed [summary_row df_seed ''A'', summary_row df_seed ''B''] 130 2 =
     [[''A''], [''B'', ''A'']] \<and>
   count_list (concat (smart_merge grid_meters df_seed
     [summary_row df_seed ''A'', summary_row df_seed ''B''] 130 2)) ''A'' = 2"
proof -
  have h: "grid_meters (38, -78) (38, -78) \<le> 130" by (simp add: grid_meters_def)
  show ?thesis
    using h smart_merge_seed_twice [where geodesic = grid_meters and distance_threshold_m = 130]
    by simp
qed

text \<open>
  Claim C3. For a pair that the merger considers (\<open>place2\<close> is another place than
  \<open>place1\<close> and not yet used), within the distance threshold and with at least
  \<open>min_visits\<close> visits of \<open>place2\<close>: if the durations of the visits of each of the two
  places sum to more than 700 minutes, \<open>place2\<close> is appended to the group of \<open>place1\<close>
  and marked used, whatever the visits overlap; and it is in the group that the loop
  over the table builds for \<open>place1\<close>.
\<close>

theorem heavy_dual_merge:
  assumes "ps_placeID place1 \<noteq> ps_placeID place2" and "ps_placeID place2 \<notin> used"
    and "geodesic (ps_lat place1, ps_lng place1) (ps_lat place2, ps_lng place2)
           \<le> distance_threshold_m"
    and "min_visits \<le> int (length (visits_of df_visits (ps_placeID place2)))"
    and "sum_list (map duration_min (visits_of df_visits (ps_placeID place1))) > 700"
    and "sum_list (map duration_min (visits_of df_visits (ps_placeID place2))) > 700"
  shows "try_merge geodesic df_visits distance_threshold_m min_visits place1 place2
           (merged_group, used) =
           (merged_group @ [ps_placeID place2], insert (ps_placeID place2) used) \<and>
         (place2 \<in> set place_summary \<longrightarrow>
            ps_placeID place2 \<in> set (fst (fold
              (try_merge geodesic df_visits distance_threshold_m min_visits place1)
              place_summary ([ps_placeID place1], used))))"
proof -
  have h: "heavy df_visits place1 \<and> heavy df_visits place2"
    using assms(5,6) by (simp add: heavy_def)
  have step: "try_merge geodesic df_visits distance_threshold_m min_visits place1 place2
           (merged_group, used) =
           (merged_group @ [ps_placeID place2], insert (ps_placeID place2) used)"
    using try_merge_result [OF assms(1,2)] assms(3) h by simp
  have "place2 \<in> set place_summary \<Longrightarrow>
            ps_placeID place2 \<in> set (fst (fold
              (try_merge geodesic df_visits distance_threshold_m min_visits place1)
              place_summary ([ps_placeID place1], used)))"
    using fold_try_merge_absorbs [of place2 place_summary place1 used "[ps_placeID place1]"
        geodesic distance_threshold_m df_visits min_visits] assms(1,2,3) h by blast
  then show ?thesis using step by blast
qed

theorem heavy_dual_merge_witness:
  "sum_list (map duration_min (visits_of df_heavy ''A'')) = 800 \<and>
   sum_list (map duration_min (visits_of df_heavy ''B'')) = 800 \<and>
   length (visits_of df_heavy ''B'') = 2 \<and>
   \<not> any_overlap df_heavy (summary_row df_heavy ''A'') (summary_row df_heavy ''B'') \<and>
   try_merge grid_meters df_heavy 130 2 (summary_row df_heavy ''A'') (summary_row df_heavy ''B'')
     ([''A''], {}) = ([''A'', ''B''], {''B''}) \<and>
   ''B'' \<in> set (fst (fold
     (try_merge grid_meters df_heavy 130 2 (summary_row df_heavy ''A''))
     [summary_row df_heavy ''A'', summary_row df_heavy ''B''] ([''A''], {})))"
proof -
  let ?a = "summary_row df_heavy ''A''" and ?b = "summary_row df_heavy ''B''"
  have 1: "ps_placeID ?a \<noteq> ps_placeID ?b" by (simp add: summary_row_placeID)
  have 2: "ps_placeID ?b \<notin> {}" by simp
  have 3: "grid_meters (ps_lat ?a, ps_lng ?a) (ps_lat ?b, ps_lng ?b) \<le> 130"
    by (simp add: merge_eval df_heavy_def)
  have 4: "2 \<le> int (length (visits_of df_heavy (ps_placeID ?b)))"
    by (simp add: merge_eval df_heavy_def)
  have ta: "sum_list (map duration_min (visits_of df_heavy ''A'')) = 800"
    by (simp add: merge_eval df_heavy_def)
  have tb: "sum_list (map duration_min (visits_of df_heavy ''B'')) = 800"
    by (simp add: merge_eval df_heavy_def)
  have 5: "sum_list (map duration_min (visits_of df_heavy (ps_placeID ?a))) > 700"
    using ta by (simp add: summary_row_placeID)
  have 6: "sum_list (map duration_min (visits_of df_heavy (ps_placeID ?b))) > 700"
    using tb by (simp add: summary_row_placeID)
  have n: "length (visits_of df_heavy ''B'') = 2" by (simp add: merge_eval df_heavy_def)
  have o: "\<not> any_overlap df_heavy ?a ?b"
    by (simp add: any_overlap_def overlaps_def merge_eval df_heavy_def)
  note th = heavy_dual_merge [where geodesic = grid_meters and ?place1.0 = "?a"
      and ?place2.0 = "?b" and used = "{}" and distance_threshold_m = 130
      and df_visits = df_heavy and min_visits = 2 and merged_group = "[''A'']"
      and place_summary = "[?a, ?b]", OF 1 2 3 4 5 6]
  have s: "try_merge grid_meters df_heavy 130 2 ?a ?b ([''A''], {}) = ([''A'', ''B''], {''B''})"
    using th [THEN conjunct1] by (simp add: summary_row_placeID)
  have "?b \<in> set [?a, ?b]" by simp
  then have f: "''B'' \<in> set (fst (fold (try_merge grid_meters df_heavy 130 2 ?a) [?a, ?b]
      ([''A''], {})))"
    using th [THEN conjunct2] by (simp only: summary_row_placeID)
  show ?thesis using ta tb n o s f by blast
qed

text \<open>
  Claim C4. For a pair that the merger considers, within the distance threshold: if
  \<open>place2\<close> has fewer than \<open>min_visits\<close> visits, it is appended to the group of \<open>place1\<close>
  and marked used, whatever the visits overlap and whatever the durations sum to; and
  it is in the group that the loop over the table builds for \<open>place1\<close>.
\<close>

theorem sparse_absorption:
  assumes "ps_placeID place1 \<noteq> ps_placeID place2" and "ps_placeID place2 \<notin> used"
    and "geodesic (ps_lat place1, ps_lng place1) (ps_lat place2, ps_lng place2)
           \<le> distance_threshold_m"
    and "int (length (visits_of df_visits (ps_placeID place2))) < min_visits"
  shows "try_merge geodesic df_visits distance_threshold_m min_visits place1 place2
           (merged_group, used) =
           (merged_group @ [ps_placeID place2], insert (ps_placeID place2) used) \<and>
         (place2 \<in> set place_summary \<longrightarrow>
            ps_placeID place2 \<in> set (fst (fold
              (try_merge geodesic df_visits distance_threshold_m min_visits place1)
              place_summary ([ps_placeID place1], used))))"
proof -
  have s: "sparse df_visits min_visits place2" using assms(4) by (simp add: sparse_def)
  have step: "try_merge geodesic df_visits distance_threshold_m min_visits place1 place2
           (merged_group, used) =
           (merged_group @ [ps_placeID place2], insert (ps_placeID place2) used)"
    using try_merge_result [OF assms(1,2)] assms(3) s by simp
  have "place2 \<in> set place_summary \<Longrightarrow>
            ps_placeID place2 \<in> set (fst (fold
              (try_merge geodesic df_visits distance_threshold_m min_visits place1)
              place_summary ([ps_placeID place1], used)))"
    using fold_try_merge_absorbs [of place2 place_summary place1 used "[ps_placeID place1]"
        geodesic distance_threshold_m df_visits min_visits] assms(1,2,3) s by blast
  then show ?thesis using step by blast
qed

theorem sparse_absorption_witness:
  "ps_placeID (summary_row df_sparse ''A'') \<noteq> ps_placeID (summary_row df_sparse ''B'') \<and>
   grid_meters (38, -78) (38001 / 1000, -78) = 111 \<and>
   length (visits_of df_sparse ''A'') = 5 \<and> length (visits_of df_sparse ''B'') = 1 \<and>
   try_merge grid_meters df_sparse 130 2 (summary_row df_sparse ''A'') (summary_row df_sparse ''B'')
     ([''A''], {}) = ([''A'', ''B''], {''B''}) \<and>
   ''B'' \<in> set (fst (fold
     (try_merge grid_meters df_sparse 130 2 (summary_row df_sparse ''A''))
     [summary_row df_sparse ''A'', summary_row df_sparse ''B''] ([''A''], {})))"
proof -
  let ?a = "summary_row df_sparse ''A''" and ?b = "summary_row df_sparse ''B''"
  have 1: "ps_placeID ?a \<noteq> ps_placeID ?b" by (simp add: summary_row_placeID)
  have 2: "ps_placeID ?b \<notin> {}" by simp
  have 3: "grid_meters (ps_lat ?a, ps_lng ?a) (ps_lat ?b, ps_lng ?b) \<le> 130"
    by (simp add: merge_eval df_sparse_def)
  have 4: "int (length (visits_of df_sparse (ps_placeID ?b))) < 2"
    by (simp add: merge_eval df_sparse_def)
  have d: "grid_meters (38, -78) (38001 / 1000, -78) = 111" by (simp add: grid_meters_def)
  have n: "length (visits_of df_sparse ''A'') = 5 \<and> length (visits_of df_sparse ''B'') = 1"
    by (simp add: merge_eval df_sparse_def)
  note th = sparse_absorption [where geodesic = grid_meters and ?place1.0 = "?a"
      and ?place2.0 = "?b" and used = "{}" and distance_threshold_m = 130
      and df_visits = df_sparse and min_visits = 2 and merged_group = "[''A'']"
      and place_summary = "[?a, ?b]", OF 1 2 3 4]
  have s: "try_merge grid_meters df_sparse 130 2 ?a ?b ([''A''], {}) = ([''A'', ''B''], {''B''})"
    using th [THEN conjunct1] by (simp add: summary_row_placeID)
  have "?b \<in> set [?a, ?b]" by simp
  then have f: "''B'' \<in> set (fst (fold (try_merge grid_meters df_sparse 130 2 ?a) [?a, ?b]
      ([''A''], {})))"
    using th [THEN conjunct2] by (simp only: summary_row_placeID)
  show ?thesis using 1 d n s f by blast
qed

text \<open>
  Claim C5. For a pair that the merger considers, within the distance threshold, where
  \<open>place2\<close> has at least \<open>min_visits\<close> visits and the two totals that the code computes
  (the sums of the two columns of durations, however the sum rounds) are not both above
  700: \<open>place2\<close> is merged if and only if some visit of \<open>place1\<close> and some visit of
  \<open>place2\<close> satisfy \<open>max start1 start2 < min end1 end2\<close>. The scan stops at the first
  such pair, so \<open>place2\<close> is appended once; without such a pair the group and the used
  set stay as they are.
\<close>

theorem overlap_merge:
  assumes "ps_placeID place1 \<noteq> ps_placeID place2" and "ps_placeID place2 \<notin> used"
    and "geodesic (ps_lat place1, ps_lng place1) (ps_lat place2, ps_lng place2)
           \<le> distance_threshold_m"
    and "\<not> int (length (visits_of df_visits (ps_placeID place2))) < min_visits"
    and "\<not> (column_sum (map duration_min (visits_of df_visits (ps_placeID place1))) > 700 \<and>
            column_sum (map duration_min (visits_of df_visits (ps_placeID place2))) > 700)"
  shows "try_merge_by column_sum geodesic df_visits distance_threshold_m min_visits
           place1 place2 (merged_group, used) =
           (if \<exists>v1\<in>set (visits_of df_visits (ps_placeID place1)).
               \<exists>v2\<in>set (visits_of df_visits (ps_placeID place2)).
                 max (start v1) (start v2) < min (end_time v1) (end_time v2)
            then (merged_group @ [ps_placeID place2], insert (ps_placeID place2) used)
            else (merged_group, used))"
  using try_merge_by_result [OF assms(1,2), of column_sum geodesic df_visits
      distance_threshold_m min_visits merged_group] assms(3,4,5)
  by (simp add: sparse_def heavy_by_def any_overlap_def overlaps_def)

text \<open>
  The witness takes the exact sum for \<open>column_sum\<close>: the durations of the two frames are
  10 minutes each, which floats add without rounding.
\<close>

theorem overlap_merge_witness:
  "sum_list (map duration_min (visits_of (df_overlap (38001 / 1000)) ''A'')) = 20 \<and>
   sum_list (map duration_min (visits_of (df_apart (38001 / 1000)) ''A'')) = 20 \<and>
   try_merge_by sum_list grid_meters (df_overlap (38001 / 1000)) 130 2
     (summary_row (df_overlap (38001 / 1000)) ''A'') (summary_row (df_overlap (38001 / 1000)) ''B'')
     ([''A''], {}) = ([''A'', ''B''], {''B''}) \<and>
   try_merge_by sum_list grid_meters (df_apart (38001 / 1000)) 130 2
     (summary_row (df_apart (38001 / 1000)) ''A'') (summary_row (df_apart (38001 / 1000)) ''B'')
     ([''A''], {}) = ([''A''], {})"
proof -
  let ?o = "df_overlap (38001 / 1000)" and ?n = "df_apart (38001 / 1000)"
  have o1: "ps_placeID (summary_row ?o ''A'') \<noteq> ps_placeID (summary_row ?o ''B'')"
    by (simp add: summary_row_placeID)
  have o2: "ps_placeID (summary_row ?o ''B'') \<notin> {}" by simp
  have o3: "grid_meters (ps_lat (summary_row ?o ''A''), ps_lng (summary_row ?o ''A''))
      (ps_lat (summary_row ?o ''B''), ps_lng (summary_row ?o ''B'')) \<le> 130"
    by (simp add: merge_eval df_overlap_def)
  have o4: "\<not> int (length (visits_of ?o (ps_placeID (summary_row ?o ''B'')))) < 2"
    by (simp add: merge_eval df_overlap_def)
  have o5: "\<not> (sum_list (map duration_min (visits_of ?o (ps_placeID (summary_row ?o ''A'')))) > 700 \<and>
      sum_list (map duration_min (visits_of ?o (ps_placeID (summary_row ?o ''B'')))) > 700)"
    by (simp add: merge_eval df_overlap_def)
  have n1: "ps_placeID (summary_row ?n ''A'') \<noteq> ps_placeID (summary_row ?n ''B'')"
    by (simp add: summary_row_placeID)
  have n2: "ps_placeID (summary_row ?n ''B'') \<notin> {}" by simp
  have n3: "grid_meters (ps_lat (summary_row ?n ''A''), ps_lng (summary_row ?n ''A''))
      (ps_lat (summary_row ?n ''B''), ps_lng (summary_row ?n ''B'')) \<le> 130"
    by (simp add: merge_eval df_apart_def)
  have n4: "\<not> int (length (visits_of ?n (ps_placeID (summary_row ?n ''B'')))) < 2"
    by (simp add: merge_eval df_apart_def)
  have n5: "\<not> (sum_list (map duration_min (visits_of ?n (ps_placeID (summary_row ?n ''A'')))) > 700 \<and>
      sum_list (map duration_min (visits_of ?n (ps_placeID (summary_row ?n ''B'')))) > 700)"
    by (simp add: merge_eval df_apart_def)
  have to: "sum_list (map duration_min (visits_of ?o ''A'')) = 20"
    by (simp add: merge_eval df_overlap_def)
  have tn: "sum_list (map duration_min (visits_of ?n ''A'')) = 20"
    by (simp add: merge_eval df_apart_def)
  have a: "try_merge_by sum_list grid_meters ?o 130 2 (summary_row ?o ''A'')
     (summary_row ?o ''B'') ([''A''], {}) = ([''A'', ''B''], {''B''})"
    using overlap_merge [where column_sum = sum_list and geodesic = grid_meters
        and ?place1.0 = "summary_row ?o ''A''" and ?place2.0 = "summary_row ?o ''B''"
        and used = "{}" and distance_threshold_m = 130 and df_visits = ?o and min_visits = 2
        and merged_group = "[''A'']", OF o1 o2 o3 o4 o5]
    by (simp add: summary_row_placeID visits_of_def df_overlap_def parse_visit_def)
  have b: "try_merge_by sum_list grid_meters ?n 130 2 (summary_row ?n ''A'')
     (summary_row ?n ''B'') ([''A''], {}) = ([''A''], {})"
    using overlap_merge [where column_sum = sum_list and geodesic = grid_meters
        and ?place1.0 = "summary_row ?n ''A''" and ?place2.0 = "summary_row ?n ''B''"
        and used = "{}" and distance_threshold_m = 130 and df_visits = ?n and min_visits = 2
        and merged_group = "[''A'']", OF n1 n2 n3 n4 n5]
    by (simp add: summary_row_placeID visits_of_def df_apart_def parse_visit_def)
  show ?thesis using to tn a b by simp
qed

text \<open>
  Claim C6. The distance gate is inclusive. A pair that the merger considers and whose
  centroids are exactly \<open>distance_threshold_m\<close> apart passes the gate: it merges when
  one of the three merge conditions holds (fewer than \<open>min_visits\<close> visits of
  \<open>place2\<close>, both computed totals above 700, or an overlapping pair of visits), as a
  pair at any smaller distance does, and is left alone only when none holds. A pair
  strictly beyond the threshold is never merged, whatever the conditions. This holds
  for every distance function and every way of summing the durations.
\<close>

theorem threshold_gate:
  assumes "ps_placeID place1 \<noteq> ps_placeID place2" and "ps_placeID place2 \<notin> used"
  shows "(geodesic (ps_lat place1, ps_lng place1) (ps_lat place2, ps_lng place2)
            = distance_threshold_m \<longrightarrow>
          try_merge_by column_sum geodesic df_visits distance_threshold_m min_visits
            place1 place2 (merged_group, used) =
            (if sparse df_visits min_visits place2 \<or>
                heavy_by column_sum df_visits place1 \<and> heavy_by column_sum df_visits place2 \<or>
                any_overlap df_visits place1 place2
             then (merged_group @ [ps_placeID place2], insert (ps_placeID place2) used)
             else (merged_group, used))) \<and>
         (geodesic (ps_lat place1, ps_lng place1) (ps_lat place2, ps_lng place2)
            > distance_threshold_m \<longrightarrow>
          try_merge_by column_sum geodesic df_visits distance_threshold_m min_visits
            place1 place2 (merged_group, used) = (merged_group, used))"
  using try_merge_by_result [OF assms, of column_sum geodesic df_visits distance_threshold_m
      min_visits merged_group]
  by simp

text \<open>
  The witness has three pairs with an overlapping pair of visits. In the first the two
  centroids coincide and the threshold is 0, so that the distance is the threshold for
  every distance function; in the second the distance is the threshold of 130 meters
  for \<open>grid_meters\<close>; both are merged. In the third the places are 222 meters apart and
  are not merged.
\<close>

theorem threshold_gate_witness:
  "grid_meters (38, -78) (38, -78) = 0 \<and>
   try_merge_by sum_list grid_meters (df_overlap 38) 0 2
     (summary_row (df_overlap 38) ''A'') (summary_row (df_overlap 38) ''B'') ([''A''], {}) =
     ([''A'', ''B''], {''B''}) \<and>
   grid_meters (38, -78) (38 + 130 / 111000, -78) = 130 \<and>
   try_merge_by sum_list grid_meters (df_overlap (38 + 130 / 111000)) 130 2
     (summary_row (df_overlap (38 + 130 / 111000)) ''A'')
     (summary_row (df_overlap (38 + 130 / 111000)) ''B'') ([''A''], {}) = ([''A'', ''B''], {''B''}) \<and>
   130 < grid_meters (38, -78) (38002 / 1000, -78) \<and>
   try_merge_by sum_list grid_meters (df_overlap (38002 / 1000)) 130 2
     (summary_row (df_overlap (38002 / 1000)) ''A'')
     (summary_row (df_overlap (38002 / 1000)) ''B'') ([''A''], {}) = ([''A''], {})"
proof -
  let ?z = "df_overlap 38"
  let ?e = "df_overlap (38 + 130 / 111000)" and ?f = "df_overlap (38002 / 1000)"
  have z1: "ps_placeID (summary_row ?z ''A'') \<noteq> ps_placeID (summary_row ?z ''B'')"
    by (simp add: summary_row_placeID)
  have z2: "ps_placeID (summary_row ?z ''B'') \<notin> {}" by simp
  have zd: "grid_meters (ps_lat (summary_row ?z ''A''), ps_lng (summary_row ?z ''A''))
      (ps_lat (summary_row ?z ''B''), ps_lng (summary_row ?z ''B'')) = 0"
    by (simp add: merge_eval df_overlap_def)
  have zo: "any_overlap ?z (summary_row ?z ''A'') (summary_row ?z ''B'')"
    by (simp add: any_overlap_def overlaps_def merge_eval df_overlap_def)
  have e1: "ps_placeID (summary_row ?e ''A'') \<noteq> ps_placeID (summary_row ?e ''B'')"
    by (simp add: summary_row_placeID)
  have e2: "ps_placeID (summary_row ?e ''B'') \<notin> {}" by simp
  have ed: "grid_meters (ps_lat (summary_row ?e ''A''), ps_lng (summary_row ?e ''A''))
      (ps_lat (summary_row ?e ''B''), ps_lng (summary_row ?e ''B'')) = 130"
    by (simp add: merge_eval df_overlap_def)
  have eo: "any_overlap ?e (summary_row ?e ''A'') (summary_row ?e ''B'')"
    by (simp add: any_overlap_def overlaps_def merge_eval df_overlap_def)
  have f1: "ps_placeID (summary_row ?f ''A'') \<noteq> ps_placeID (summary_row ?f ''B'')"
    by (simp add: summary_row_placeID)
  have f2: "ps_placeID (summary_row ?f ''B'') \<notin> {}" by simp
  have fd: "grid_meters (ps_lat (summary_row ?f ''A''), ps_lng (summary_row ?f ''A''))
      (ps_lat (summary_row ?f ''B''), ps_lng (summary_row ?f ''B'')) > 130"
    by (simp add: merge_eval df_overlap_def)
  have z: "try_merge_by sum_list grid_meters ?z 0 2 (summary_row ?z ''A'')
     (summary_row ?z ''B'') ([''A''], {}) = ([''A'', ''B''], {''B''})"
    using threshold_gate [where column_sum = sum_list and geodesic = grid_meters
        and ?place1.0 = "summary_row ?z ''A''" and ?place2.0 = "summary_row ?z ''B''"
        and used = "{}" and distance_threshold_m = 0 and df_visits = ?z and min_visits = 2
        and merged_group = "[''A'']", OF z1 z2] zd zo
    by (simp add: summary_row_placeID)
  have a: "try_merge_by sum_list grid_meters ?e 130 2 (summary_row ?e ''A'')
     (summary_row ?e ''B'') ([''A''], {}) = ([''A'', ''B''], {''B''})"
    using threshold_gate [where column_sum = sum_list and geodesic = grid_meters
        and ?place1.0 = "summary_row ?e ''A''" and ?place2.0 = "summary_row ?e ''B''"
        and used = "{}" and distance_threshold_m = 130 and df_visits = ?e and min_visits = 2
        and merged_group = "[''A'']", OF e1 e2] ed eo
    by (simp add: summary_row_placeID)
  have b: "try_merge_by sum_list grid_meters ?f 130 2 (summary_row ?f ''A'')
     (summary_row ?f ''B'') ([''A''], {}) = ([''A''], {})"
    using threshold_gate [where column_sum = sum_list and geodesic = grid_meters
        and ?place1.0 = "summary_row ?f ''A''" and ?place2.0 = "summary_row ?f ''B''"
        and used = "{}" and distance_threshold_m = 130 and df_visits = ?f and min_visits = 2
        and merged_group = "[''A'']", OF f1 f2] fd
    by simp
  have d0: "grid_meters (38, -78) (38, -78) = 0" by (simp add: grid_meters_def)
  have d1: "grid_meters (38, -78) (38 + 130 / 111000, -78) = 130" by (simp add: grid_meters_def)
  have d2: "130 < grid_meters (38, -78) (38002 / 1000, -78)" by (simp add: grid_meters_def)
  show ?thesis using z a b d0 d1 d2 by simp
qed

section \<open>Claims about the summary of the merged places\<close>

lemma merged_summary_iff:
  "row \<in> set (merged_summary df_visits merged_groups) \<longleftrightarrow>
     row \<in> set (collapsed_summary df_visits merged_groups) \<and> 2 < ms_num_visits (snd row)"
  by (simp add: merged_summary_def)

lemma collapsed_summary_row:
  "i < length merged_groups \<Longrightarrow> group_of df_visits merged_groups i \<noteq> [] \<Longrightarrow>
   (i, collapse_visits (group_of df_visits merged_groups i))
     \<in> set (collapsed_summary df_visits merged_groups)"
  by (simp add: collapsed_summary_def)

lemma group_of_counts:
  "group_of df_counts [[''A''], [''B'']] 0 =
     [parse_visit 0 600 ''A'' 38 (-78), parse_visit 1000 1600 ''A'' 38 (-78),
      parse_visit 1500 1900 ''A'' 38 (-78), parse_visit 3000 3600 ''A'' 38 (-78)]"
  "group_of df_counts [[''A''], [''B'']] (Suc 0) =
     [parse_visit 0 600 ''B'' 39 (-78), parse_visit 1000 1600 ''B'' 39 (-78),
      parse_visit 1600 2000 ''B'' 39 (-78)]"
  by (simp_all add: group_of_def merged_placeID_def place_id_merge_map_def df_counts_def
      parse_visit_def)

text \<open>
  Claim C9. The final summary keeps exactly the rows of the collapsed summary whose
  visit count is greater than 2: a row with visit count 2 is dropped and every row
  with visit count 3 or more is kept. For a group that has visits, its row is kept if
  and only if its visits collapse to more than two windows.
\<close>

theorem merged_summary_keeps_more_than_two:
  "(row \<in> set (merged_summary df_visits merged_groups) \<longleftrightarrow>
      row \<in> set (collapsed_summary df_visits merged_groups) \<and> 2 < ms_num_visits (snd row)) \<and>
   (row \<in> set (collapsed_summary df_visits merged_groups) \<and> ms_num_visits (snd row) = 2 \<longrightarrow>
      row \<notin> set (merged_summary df_visits merged_groups)) \<and>
   (row \<in> set (collapsed_summary df_visits merged_groups) \<and> 3 \<le> ms_num_visits (snd row) \<longrightarrow>
      row \<in> set (merged_summary df_visits merged_groups)) \<and>
   (i < length merged_groups \<and> group_of df_visits merged_groups i \<noteq> [] \<longrightarrow>
      ((i, collapse_visits (group_of df_visits merged_groups i))
          \<in> set (merged_summary df_visits merged_groups) \<longleftrightarrow>
       2 < length (collapse_windows (group_of df_visits merged_groups i))))"
proof -
  have n: "ms_num_visits (collapse_visits (group_of df_visits merged_groups i)) =
      length (collapse_windows (group_of df_visits merged_groups i))"
    by (simp add: collapse_visits_def Let_def)
  show ?thesis
    using merged_summary_iff [of row df_visits merged_groups]
      merged_summary_iff [of "(i, collapse_visits (group_of df_visits merged_groups i))"
        df_visits merged_groups]
      collapsed_summary_row [of i merged_groups df_visits] n
    by auto
qed

theorem merged_summary_keeps_more_than_two_witness:
  "smart_merge grid_meters df_counts [summary_row df_counts ''A'', summary_row df_counts ''B'']
     130 2 = [[''A''], [''B'']] \<and>
   collapse_windows (group_of df_counts [[''A''], [''B'']] 0) =
     [(0, 600), (1000, 1900), (3000, 3600)] \<and>
   (0, collapse_visits (group_of df_counts [[''A''], [''B'']] 0))
     \<in> set (merged_summary df_counts [[''A''], [''B'']]) \<and>
   collapse_windows (group_of df_counts [[''A''], [''B'']] 1) = [(0, 600), (1000, 2000)] \<and>
   (1, collapse_visits (group_of df_counts [[''A''], [''B'']] 1))
     \<in> set (collapsed_summary df_counts [[''A''], [''B'']]) \<and>
   (1, collapse_visits (group_of df_counts [[''A''], [''B'']] 1))
     \<notin> set (merged_summary df_counts [[''A''], [''B'']])"
proof -
  let ?g = "[[''A''], [''B'']]"
  let ?r0 = "(0::nat, collapse_visits (group_of df_counts ?g 0))"
  let ?r1 = "(1::nat, collapse_visits (group_of df_counts ?g 1))"
  have m: "smart_merge grid_meters df_counts
      [summary_row df_counts ''A'', summary_row df_counts ''B''] 130 2 = ?g"
    by (simp add: merge_eval df_counts_def)
  have w0: "collapse_windows (group_of df_counts ?g 0) = [(0, 600), (1000, 1900), (3000, 3600)]"
    by (simp add: group_of_counts collapse_windows_def add_final_def parse_visit_def)
  have w1: "collapse_windows (group_of df_counts ?g 1) = [(0, 600), (1000, 2000)]"
    by (simp add: group_of_counts collapse_windows_def add_final_def parse_visit_def)
  have n0: "3 \<le> ms_num_visits (snd ?r0)" using w0 by (simp add: collapse_visits_def)
  have n1: "ms_num_visits (snd ?r1) = 2" using w1 by (simp add: collapse_visits_def)
  have c0: "?r0 \<in> set (collapsed_summary df_counts ?g)"
    using collapsed_summary_row [of 0 ?g df_counts] by (simp add: group_of_counts)
  have c1: "?r1 \<in> set (collapsed_summary df_counts ?g)"
    using collapsed_summary_row [of 1 ?g df_counts] by (simp add: group_of_counts)
  have g1: "1 < length ?g \<and> group_of df_counts ?g 1 \<noteq> []"
    by (simp add: group_of_counts)
  have k0: "?r0 \<in> set (merged_summary df_counts ?g)"
    using merged_summary_keeps_more_than_two [of ?r0 df_counts ?g 0,
        THEN conjunct2, THEN conjunct2, THEN conjunct1] c0 n0 by blast
  have k1: "?r1 \<notin> set (merged_summary df_counts ?g)"
    using merged_summary_keeps_more_than_two [of ?r1 df_counts ?g 1,
        THEN conjunct2, THEN conjunct1] c1 n1 by blast
  have "?r1 \<in> set (merged_summary df_counts ?g) \<longleftrightarrow>
      2 < length (collapse_windows (group_of df_counts ?g 1))"
    using merged_summary_keeps_more_than_two [of ?r1 df_counts ?g 1,
        THEN conjunct2, THEN conjunct2, THEN conjunct2] g1 by blast
  show ?thesis using m w0 w1 k0 c1 k1 by blast
qed

end
